theory Spec2Isabelle
  imports Complex_Main
begin

chapter \<open>The programs\<close>

section \<open>Python values shared by the three source files\<close>

text \<open>
  Exceptions are values. \<open>RuntimeError\<close> stands for the size errors raised by the
  tensor library (reshape, view, linear and convolution size checks, negative sizes).
\<close>

datatype error =
    AssertionError
  | ZeroDivisionError
  | IndexError
  | ValueError
  | RuntimeError

text \<open>
  \<open>xs[i:]\<close>: a negative start counts from the end and is clipped at the front of the
  list, a start past the end gives the empty list.
\<close>

definition py_slice_from :: "'a list \<Rightarrow> int \<Rightarrow> 'a list" where
  "py_slice_from xs i =
     (if i < 0 then drop (nat (int (length xs) + i)) xs else drop (nat i) xs)"

text \<open>\<open>xs[i]\<close>: a negative index counts from the end; out of range raises.\<close>

definition py_index :: "'a list \<Rightarrow> int \<Rightarrow> error + 'a" where
  "py_index xs i =
     (if 0 \<le> i \<and> i < int (length xs) then Inr (xs ! nat i)
      else if i < 0 \<and> - int (length xs) \<le> i then Inr (xs ! nat (int (length xs) + i))
      else Inl IndexError)"

text \<open>
  The size check of \<open>Tensor.reshape\<close> and \<open>Tensor.view\<close>: given the requested sizes
  and the number of elements, the resulting shape or an error. One size may be \<open>-1\<close>
  and is then inferred; any other negative size is refused.
\<close>

definition infer_size :: "int list \<Rightarrow> nat \<Rightarrow> error + nat list" where
  "infer_size sizes numel =
     (if \<exists>d \<in> set sizes. d < - 1 then Inl RuntimeError
      else if 1 < length (filter (\<lambda>d. d = - 1) sizes) then Inl RuntimeError
      else
        let newsize = prod_list (filter (\<lambda>d. d \<noteq> - 1) sizes) in
        if - 1 \<in> set sizes then
          (if 0 < newsize \<and> int numel mod newsize = 0
           then Inr (map (\<lambda>d. if d = - 1 then numel div nat newsize else nat d) sizes)
           else Inl RuntimeError)
        else if int numel = newsize then Inr (map nat sizes)
        else Inl RuntimeError)"

text \<open>Sequencing of steps that may raise: the first error ends the computation.\<close>

definition bind_err :: "error + 'a \<Rightarrow> ('a \<Rightarrow> error + 'b) \<Rightarrow> error + 'b" where
  "bind_err m f = (case m of Inl e \<Rightarrow> Inl e | Inr x \<Rightarrow> f x)"

fun fold_err :: "('a \<Rightarrow> 's \<Rightarrow> error + 's) \<Rightarrow> 'a list \<Rightarrow> 's \<Rightarrow> error + 's" where
  "fold_err f [] s = Inr s"
| "fold_err f (x # xs) s = bind_err (f x s) (fold_err f xs)"

section \<open>Returns-to-go (\<open>dt_evaluation.get_returns\<close>)\<close>

text \<open>
  The array \<open>returns_to_go\<close> starts as zeros. For each \<open>i\<close> the inner loop adds
  \<open>rewards[j]\<close> for \<open>j\<close> in \<open>range(i)\<close> to entry \<open>i\<close>, then the entry is replaced
  by \<open>target_return\<close> minus itself. Every index used is in range. Rewards are reals.
\<close>

definition accumulate_before :: "real list \<Rightarrow> nat \<Rightarrow> real list \<Rightarrow> real list" where
  "accumulate_before rewards i returns_to_go =
     fold (\<lambda>j a. a[i := a ! i + rewards ! j]) [0..<i] returns_to_go"

definition returns_step :: "real list \<Rightarrow> real \<Rightarrow> nat \<Rightarrow> real list \<Rightarrow> real list" where
  "returns_step rewards target_return i returns_to_go =
     (let a = accumulate_before rewards i returns_to_go
      in a[i := target_return - a ! i])"

definition get_returns :: "real list \<Rightarrow> real \<Rightarrow> real list" where
  "get_returns rewards target_return =
     fold (returns_step rewards target_return) [0..<length rewards]
       (replicate (length rewards) 0)"

section \<open>The context manager (\<open>dt_evaluation.make_action\<close>)\<close>

text \<open>
  The trajectory is a dictionary of four lists that \<open>make_action\<close> updates in place;
  here the updated trajectory is returned beside the result, also when the call raises
  after the update. An observation is a stack of four 84 by 84 frames.
\<close>

record ('o, 'a) trajectory =
  observations :: "'o list"
  actions :: "'a list"
  rewards :: "real list"
  steps :: "int list"

text \<open>The tensors handed to the sequence model.\<close>

record ('o, 'a) query =
  q_states :: "'o list"
  q_actions :: "'a list"
  q_timesteps :: int
  q_rtgs :: "real list"

definition obs_numel :: nat where
  "obs_numel = 4 * 84 * 84"

definition reshape_check :: "int list \<Rightarrow> nat \<Rightarrow> error + unit" where
  "reshape_check sizes numel =
     (case infer_size sizes numel of Inl e \<Rightarrow> Inl e | Inr _ \<Rightarrow> Inr ())"

text \<open>Lines 50 to 52: the three slices that replace the lists; \<open>steps\<close> is not assigned.\<close>

definition truncate_trajectory :: "('o, 'a) trajectory \<Rightarrow> int \<Rightarrow> ('o, 'a) trajectory" where
  "truncate_trajectory tr context_len =
     tr\<lparr> observations := py_slice_from (observations tr) (- context_len),
         actions := py_slice_from (actions tr) (- context_len + 1),
         rewards := py_slice_from (rewards tr) (- context_len) \<rparr>"

text \<open>
  Lines 42 to 48, fewer observations than \<open>context_len\<close>: the local \<open>context_len\<close>
  becomes the number of observations and nothing is assigned to the trajectory.
\<close>

definition pack_filling :: "('o, 'a) trajectory \<Rightarrow> error + ('o, 'a) query" where
  "pack_filling tr =
     (let context_len = int (length (observations tr)) in
      case reshape_check [1, context_len, 4, 84, 84] (length (observations tr) * obs_numel) of
        Inl e \<Rightarrow> Inl e
      | Inr _ \<Rightarrow>
      (case reshape_check [1, context_len - 1, 1] (length (actions tr)) of
        Inl e \<Rightarrow> Inl e
      | Inr _ \<Rightarrow>
      (case py_index (steps tr) 0 of
        Inl e \<Rightarrow> Inl e
      | Inr t0 \<Rightarrow>
      (let rtg = get_returns (rewards tr) 200 in
       case reshape_check [1, context_len, 1] (length rtg) of
        Inl e \<Rightarrow> Inl e
      | Inr _ \<Rightarrow>
          Inr \<lparr> q_states = observations tr, q_actions = actions tr,
                q_timesteps = t0, q_rtgs = rtg \<rparr>))))"

text \<open>Lines 50 to 57, at least \<open>context_len\<close> observations.\<close>

definition pack_full ::
  "('o, 'a) trajectory \<Rightarrow> int \<Rightarrow> ('o, 'a) trajectory \<times> (error + ('o, 'a) query)" where
  "pack_full tr context_len =
     (let tr' = truncate_trajectory tr context_len;
          states = py_slice_from (observations tr') (- context_len);
          acts = py_slice_from (actions tr') (- context_len + 1)
      in (tr',
      case reshape_check [1, context_len, 4, 84, 84] (length states * obs_numel) of
        Inl e \<Rightarrow> Inl e
      | Inr _ \<Rightarrow>
      (case reshape_check [1, context_len - 1, 1] (length acts) of
        Inl e \<Rightarrow> Inl e
      | Inr _ \<Rightarrow>
      (case py_index (steps tr') (- context_len) of
        Inl e \<Rightarrow> Inl e
      | Inr t0 \<Rightarrow>
      (let rtg = py_slice_from (get_returns (rewards tr') 200) (- context_len) in
       case reshape_check [1, context_len, 1] (length rtg) of
        Inl e \<Rightarrow> Inl e
      | Inr _ \<Rightarrow>
          Inr \<lparr> q_states = states, q_actions = acts,
                q_timesteps = t0, q_rtgs = rtg \<rparr>)))))"

text \<open>
  \<open>make_action\<close>. The sequence model with its sampling (\<open>model.forward\<close>, softmax,
  \<open>torch.multinomial\<close>) and the random draw for the empty trajectory are outside this
  function: they are the parameters \<open>policy\<close> and \<open>random_action\<close>.
\<close>

definition make_action ::
  "(('o, 'a) query \<Rightarrow> 'a) \<Rightarrow> 'a \<Rightarrow> ('o, 'a) trajectory \<Rightarrow> int \<Rightarrow>
   ('o, 'a) trajectory \<times> (error + 'a)" where
  "make_action policy random_action tr context_len =
     (if length (observations tr) = 0 then (tr, Inr random_action)
      else if int (length (observations tr)) < context_len then
        (tr, map_sum id policy (pack_filling tr))
      else
        (let (tr', q) = pack_full tr context_len in (tr', map_sum id policy q)))"

text \<open>\<open>get_trajectory\<close>: one step appended to each of the four lists.\<close>

definition get_trajectory ::
  "('o, 'a) trajectory \<Rightarrow> 'o \<Rightarrow> 'a \<Rightarrow> real \<Rightarrow> int \<Rightarrow> ('o, 'a) trajectory" where
  "get_trajectory tr observation action reward step =
     tr\<lparr> observations := observations tr @ [observation],
         actions := actions tr @ [action],
         rewards := rewards tr @ [reward],
         steps := steps tr @ [step] \<rparr>"

section \<open>Dataset preparation (\<open>download_dataset.py\<close>)\<close>

text \<open>
  The dataset is a dictionary of parallel arrays; \<open>timeouts\<close> may be absent. Indexing
  an array with a non-negative index past its end raises \<open>IndexError\<close>.
\<close>

definition np_index :: "'a list \<Rightarrow> nat \<Rightarrow> error + 'a" where
  "np_index xs i = (if i < length xs then Inr (xs ! i) else Inl IndexError)"

record ('o, 'a) dataset =
  ds_observations :: "'o list"
  ds_actions :: "'a list"
  ds_rewards :: "real list"
  ds_terminals :: "bool list"
  ds_timeouts :: "bool list option"

text \<open>
  The lists of the episode under construction (\<open>data_\<close>) and a finished episode
  (\<open>episode_data\<close>) have the same five keys; the type of the rewards is a parameter,
  since the mixed path saves quotients.
\<close>

record ('o, 'a, 'r) episode =
  e_observations :: "'o list"
  e_next_observations :: "'o list"
  e_actions :: "'a list"
  e_rewards :: "'r list"
  e_terminals :: "bool list"

definition empty_episode :: "('o, 'a, 'r) episode" where
  "empty_episode =
     \<lparr> e_observations = [], e_next_observations = [], e_actions = [],
       e_rewards = [], e_terminals = [] \<rparr>"

text \<open>
  Lines 53 to 56 and 112 to 115: \<open>observations[i+1]\<close>, and \<open>observations[i]\<close> when
  that raises \<open>IndexError\<close>.
\<close>

definition next_observation :: "'o list \<Rightarrow> nat \<Rightarrow> error + 'o" where
  "next_observation obs i =
     (case np_index obs (i + 1) of
        Inr x \<Rightarrow> Inr x
      | Inl IndexError \<Rightarrow> np_index obs i
      | Inl e \<Rightarrow> Inl e)"

text \<open>\<open>final_timestep\<close>: the timeout flag when the dataset has one, else the step cutoff.\<close>

definition final_timestep :: "('o, 'a) dataset \<Rightarrow> nat \<Rightarrow> nat \<Rightarrow> error + bool" where
  "final_timestep ds i episode_step =
     (case ds_timeouts ds of
        Some ts \<Rightarrow> np_index ts i
      | None \<Rightarrow> Inr (episode_step = 4096))"

subsection \<open>\<open>mix_games == False\<close>\<close>

text \<open>Lines 51 to 58: one sample appended under each of the five keys, in the source's order.\<close>

definition collect_sample ::
  "('o, 'a) dataset \<Rightarrow> nat \<Rightarrow> ('o, 'a, real) episode \<Rightarrow> error + ('o, 'a, real) episode" where
  "collect_sample ds i d =
     bind_err (np_index (ds_observations ds) i) (\<lambda>ob.
     bind_err (next_observation (ds_observations ds) i) (\<lambda>nx.
     bind_err (np_index (ds_actions ds) i) (\<lambda>ac.
     bind_err (np_index (ds_rewards ds) i) (\<lambda>rw.
     bind_err (np_index (ds_terminals ds) i) (\<lambda>tm.
       Inr \<lparr> e_observations = e_observations d @ [ob],
             e_next_observations = e_next_observations d @ [nx],
             e_actions = e_actions d @ [ac],
             e_rewards = e_rewards d @ [rw],
             e_terminals = e_terminals d @ [tm] \<rparr>)))))"

record ('o, 'a) loop_state =
  data :: "('o, 'a, real) episode"
  episode_step :: nat
  paths :: "('o, 'a, real) episode list"

definition sample_step ::
  "('o, 'a) dataset \<Rightarrow> nat \<Rightarrow> ('o, 'a) loop_state \<Rightarrow> error + ('o, 'a) loop_state" where
  "sample_step ds i st =
     bind_err (np_index (ds_terminals ds) i) (\<lambda>done_bool.
     bind_err (final_timestep ds i (episode_step st)) (\<lambda>final.
     bind_err (collect_sample ds i (data st)) (\<lambda>d.
       Inr (if done_bool \<or> final
            then \<lparr> data = empty_episode, episode_step = 0 + 1, paths = paths st @ [d] \<rparr>
            else \<lparr> data = d, episode_step = episode_step st + 1, paths = paths st \<rparr>))))"

definition unmixed_paths :: "('o, 'a) dataset \<Rightarrow> error + ('o, 'a, real) episode list" where
  "unmixed_paths ds =
     map_sum id paths
       (fold_err (sample_step ds) [0..<length (ds_rewards ds) div 2]
          \<lparr> data = empty_episode, episode_step = 0, paths = [] \<rparr>)"

subsection \<open>\<open>mix_games == True\<close>\<close>

text \<open>
  A quotient computed by \<open>numpy\<close>: dividing by zero does not raise, it gives an
  infinity or, for \<open>0 / 0\<close>, a NaN. Finite values are reals here; rounding is not
  modelled.
\<close>

datatype npfloat = Finite real | PosInf | NegInf | NaN

definition np_true_divide :: "real \<Rightarrow> real \<Rightarrow> npfloat" where
  "np_true_divide x s =
     (if s \<noteq> 0 then Finite (x / s)
      else if 0 < x then PosInf
      else if x < 0 then NegInf
      else NaN)"

fun is_finite :: "npfloat \<Rightarrow> bool" where
  "is_finite (Finite _) = True"
| "is_finite _ = False"

text \<open>Lines 110 to 120: as above, and the reward is added to \<open>sum_reward\<close>.\<close>

definition collect_sample_mixed ::
  "('o, 'a) dataset \<Rightarrow> nat \<Rightarrow> ('o, 'a, real) episode \<times> real \<Rightarrow>
   error + ('o, 'a, real) episode \<times> real" where
  "collect_sample_mixed ds i ds_sum =
     (case ds_sum of (d, sum_reward) \<Rightarrow>
     bind_err (np_index (ds_observations ds) i) (\<lambda>ob.
     bind_err (next_observation (ds_observations ds) i) (\<lambda>nx.
     bind_err (np_index (ds_actions ds) i) (\<lambda>ac.
     bind_err (np_index (ds_rewards ds) i) (\<lambda>rw.
     bind_err (np_index (ds_terminals ds) i) (\<lambda>tm.
       Inr (\<lparr> e_observations = e_observations d @ [ob],
              e_next_observations = e_next_observations d @ [nx],
              e_actions = e_actions d @ [ac],
              e_rewards = e_rewards d @ [rw],
              e_terminals = e_terminals d @ [tm] \<rparr>,
            sum_reward + rw)))))))"

text \<open>Lines 125 to 131: the arrays of the finished episode, the rewards divided by the sum.\<close>

definition episode_data :: "('o, 'a, real) episode \<Rightarrow> real \<Rightarrow> ('o, 'a, npfloat) episode" where
  "episode_data d sum_reward =
     \<lparr> e_observations = e_observations d,
       e_next_observations = e_next_observations d,
       e_actions = e_actions d,
       e_rewards = map (\<lambda>r. np_true_divide r sum_reward) (e_rewards d),
       e_terminals = e_terminals d \<rparr>"

record ('o, 'a) mixed_state =
  m_data :: "('o, 'a, real) episode"
  m_episode_step :: nat
  m_sum_reward :: real
  m_paths :: "('o, 'a, npfloat) episode list"

definition mixed_step ::
  "('o, 'a) dataset \<Rightarrow> nat \<Rightarrow> ('o, 'a) mixed_state \<Rightarrow> error + ('o, 'a) mixed_state" where
  "mixed_step ds i st =
     bind_err (np_index (ds_terminals ds) i) (\<lambda>done_bool.
     bind_err (final_timestep ds i (m_episode_step st)) (\<lambda>final.
     bind_err (collect_sample_mixed ds i (m_data st, m_sum_reward st)) (\<lambda>(d, sum_reward).
       Inr (if done_bool \<or> final
            then \<lparr> m_data = empty_episode, m_episode_step = 0 + 1, m_sum_reward = 0,
                   m_paths = m_paths st @ [episode_data d sum_reward] \<rparr>
            else \<lparr> m_data = d, m_episode_step = m_episode_step st + 1,
                   m_sum_reward = sum_reward, m_paths = m_paths st \<rparr>))))"

text \<open>
  One game of the mixed path: \<open>data_\<close>, \<open>episode_step\<close> and \<open>sum_reward\<close> start
  afresh, \<open>paths\<close> carries over from the games before.
\<close>

definition mixed_game ::
  "('o, 'a) dataset \<Rightarrow> ('o, 'a, npfloat) episode list \<Rightarrow>
   error + ('o, 'a, npfloat) episode list" where
  "mixed_game ds ps =
     map_sum id m_paths
       (fold_err (mixed_step ds) [0..<length (ds_rewards ds) div 2]
          \<lparr> m_data = empty_episode, m_episode_step = 0, m_sum_reward = 0, m_paths = ps \<rparr>)"

definition mixed_paths ::
  "('o, 'a) dataset list \<Rightarrow> error + ('o, 'a, npfloat) episode list" where
  "mixed_paths games = fold_err mixed_game games []"

subsection \<open>What the mixed path is expected to save\<close>

text \<open>
  The rewards of one episode, each divided by their sum, and the property of a saved
  episode that its rewards are these quotients for a non-empty run \<open>[a, b)\<close> of
  consecutive samples of the dataset.
\<close>

definition quotients :: "real list \<Rightarrow> npfloat list" where
  "quotients seg = map (\<lambda>r. np_true_divide r (sum_list seg)) seg"

definition normalised_episode :: "real list \<Rightarrow> ('o, 'a, npfloat) episode \<Rightarrow> bool" where
  "normalised_episode R ep \<longleftrightarrow>
     (\<exists>a b. a < b \<and> b \<le> length R \<and> e_rewards ep = quotients (take (b - a) (drop a R)))"

text \<open>
  The invariant of the loop of one game before sample \<open>i\<close>: \<open>sum_reward\<close> is the sum
  of the rewards collected for the open episode, these are the samples from some
  \<open>a\<close> up to \<open>i\<close>, and every episode added so far is normalised.
\<close>

definition mixed_inv ::
  "('o, 'a) dataset \<Rightarrow> ('o, 'a, npfloat) episode list \<Rightarrow> nat \<Rightarrow> ('o, 'a) mixed_state \<Rightarrow> bool" where
  "mixed_inv ds ps0 i st \<longleftrightarrow>
     i \<le> length (ds_rewards ds) \<and>
     m_sum_reward st = sum_list (e_rewards (m_data st)) \<and>
     (\<exists>a\<le>i. e_rewards (m_data st) = take (i - a) (drop a (ds_rewards ds))) \<and>
     (\<exists>new. m_paths st = ps0 @ new \<and> list_all (normalised_episode (ds_rewards ds)) new)"

section \<open>Construction of the model (\<open>dt_model_pretrained.py\<close>)\<close>

text \<open>
  A layer constructor allocates its parameters: a negative size makes the allocation
  raise, and \<open>nn.Dropout\<close> refuses a probability outside \<open>[0, 1]\<close>. The parameters
  themselves are drawn at random and are not part of what construction decides.
\<close>

definition alloc :: "int list \<Rightarrow> error + unit" where
  "alloc sizes = (if \<exists>d \<in> set sizes. d < 0 then Inl RuntimeError else Inr ())"

definition nn_Linear :: "int \<Rightarrow> int \<Rightarrow> error + unit" where
  "nn_Linear in_features out_features = alloc [out_features, in_features]"

definition nn_Embedding :: "int \<Rightarrow> int \<Rightarrow> error + unit" where
  "nn_Embedding num_embeddings embedding_dim = alloc [num_embeddings, embedding_dim]"

definition nn_LayerNorm :: "int \<Rightarrow> error + unit" where
  "nn_LayerNorm normalized_shape = alloc [normalized_shape]"

definition nn_Conv2d :: "int \<Rightarrow> int \<Rightarrow> int \<Rightarrow> error + unit" where
  "nn_Conv2d in_channels out_channels kernel_size =
     alloc [out_channels, in_channels, kernel_size, kernel_size]"

definition nn_Dropout :: "real \<Rightarrow> error + unit" where
  "nn_Dropout p = (if p < 0 \<or> 1 < p then Inl ValueError else Inr ())"

text \<open>\<open>assert h_dim % n_heads == 0\<close>: the modulo raises for a zero divisor.\<close>

definition assert_divisible :: "int \<Rightarrow> int \<Rightarrow> error + unit" where
  "assert_divisible h_dim n_heads =
     (if n_heads = 0 then Inl ZeroDivisionError
      else if h_dim mod n_heads = 0 then Inr ()
      else Inl AssertionError)"

record attention =
  n_heads :: int
  h_dim :: int
  max_T :: int

definition MaskedCausalAttention_init ::
  "int \<Rightarrow> int \<Rightarrow> int \<Rightarrow> real \<Rightarrow> error + attention" where
  "MaskedCausalAttention_init h_dim' max_T' n_heads' drop_p =
     bind_err (assert_divisible h_dim' n_heads') (\<lambda>_.
     bind_err (nn_Linear h_dim' (3 * h_dim')) (\<lambda>_.
     bind_err (nn_Linear h_dim' h_dim') (\<lambda>_.
     bind_err (nn_Dropout drop_p) (\<lambda>_.
     bind_err (nn_Dropout drop_p) (\<lambda>_.
     bind_err (alloc [max_T', max_T']) (\<lambda>_.
       Inr \<lparr> n_heads = n_heads', h_dim = h_dim', max_T = max_T' \<rparr>))))))"

record block =
  attn :: attention

definition Block_init :: "int \<Rightarrow> int \<Rightarrow> int \<Rightarrow> real \<Rightarrow> error + block" where
  "Block_init h_dim' max_T' n_heads' drop_p =
     bind_err (MaskedCausalAttention_init h_dim' max_T' n_heads' drop_p) (\<lambda>a.
     bind_err (nn_Linear h_dim' (4 * h_dim')) (\<lambda>_.
     bind_err (nn_Linear (4 * h_dim') h_dim') (\<lambda>_.
     bind_err (nn_Dropout drop_p) (\<lambda>_.
     bind_err (nn_LayerNorm h_dim') (\<lambda>_.
     bind_err (nn_LayerNorm h_dim') (\<lambda>_.
       Inr \<lparr> attn = a \<rparr>))))))"

fun sequence_err :: "(error + 'a) list \<Rightarrow> error + 'a list" where
  "sequence_err [] = Inr []"
| "sequence_err (m # ms) = bind_err m (\<lambda>x. bind_err (sequence_err ms) (\<lambda>xs. Inr (x # xs)))"

record decision_transformer =
  state_dim :: int
  act_dim :: int
  dt_h_dim :: int
  context_len :: int
  max_timestep :: int
  transformer_h :: "block list"

text \<open>
  \<open>DecisionTransformer.__init__\<close>: the embedding layers, then one \<open>Block\<close> for each
  element of \<open>range(n_blocks)\<close> (none when \<open>n_blocks \<le> 0\<close>), then the final
  normalisation and the prediction heads.
\<close>

definition DecisionTransformer_init ::
  "int \<Rightarrow> int \<Rightarrow> int \<Rightarrow> int \<Rightarrow> int \<Rightarrow> int \<Rightarrow> real \<Rightarrow> int \<Rightarrow>
   error + decision_transformer" where
  "DecisionTransformer_init state_dim' act_dim' n_blocks h_dim' context_len' n_heads' drop_p
     max_timestep' =
     bind_err (nn_Embedding max_timestep' h_dim') (\<lambda>_.
     bind_err (nn_Linear (1 * context_len') (h_dim' * context_len')) (\<lambda>_.
     bind_err (nn_Conv2d context_len' 32 8) (\<lambda>_.
     bind_err (nn_Conv2d 32 64 4) (\<lambda>_.
     bind_err (nn_Conv2d 64 64 3) (\<lambda>_.
     bind_err (nn_Linear 3136 (h_dim' * context_len')) (\<lambda>_.
     bind_err (nn_Embedding act_dim' h_dim') (\<lambda>_.
     bind_err (nn_LayerNorm h_dim') (\<lambda>_.
     bind_err (sequence_err
        (replicate (nat n_blocks) (Block_init h_dim' (3 * context_len') n_heads' drop_p)))
        (\<lambda>blocks.
     bind_err (nn_LayerNorm h_dim') (\<lambda>_.
     bind_err (nn_Linear h_dim' 1) (\<lambda>_.
     bind_err (nn_Linear h_dim' (state_dim' * state_dim')) (\<lambda>_.
     bind_err (nn_Linear h_dim' act_dim') (\<lambda>_.
       Inr \<lparr> state_dim = state_dim', act_dim = act_dim', dt_h_dim = h_dim',
             context_len = context_len', max_timestep = max_timestep',
             transformer_h = blocks \<rparr>)))))))))))))"

section \<open>The forward pass on shapes\<close>

text \<open>
  A shape is the list of the sizes of a tensor. Each operation of the forward pass is the
  function it induces on shapes, with the size checks of the tensor library as errors.
  The two tensors of indices, \<open>timesteps\<close> and \<open>actions\<close>, keep their entries (in
  row-major order, as many as the product of the sizes), since an embedding lookup
  raises on an index outside its table, as it does on the CPU.
\<close>

type_synonym shape = "nat list"

record index_tensor =
  dims :: shape
  entries :: "int list"

definition numel :: "shape \<Rightarrow> nat" where
  "numel s = prod_list s"

definition reshape :: "shape \<Rightarrow> int list \<Rightarrow> error + shape" where
  "reshape s sizes = infer_size sizes (numel s)"

definition in_table :: "int \<Rightarrow> int \<Rightarrow> bool" where
  "in_table num_embeddings i \<longleftrightarrow> 0 \<le> i \<and> i < num_embeddings"

definition Embedding_shape :: "int \<Rightarrow> int \<Rightarrow> index_tensor \<Rightarrow> error + shape" where
  "Embedding_shape num_embeddings embedding_dim x =
     (if list_all (in_table num_embeddings) (entries x)
      then Inr (dims x @ [nat embedding_dim])
      else Inl IndexError)"

definition Linear_shape :: "int \<Rightarrow> int \<Rightarrow> shape \<Rightarrow> error + shape" where
  "Linear_shape in_features out_features s =
     (if s \<noteq> [] \<and> int (last s) = in_features then Inr (butlast s @ [nat out_features])
      else Inl RuntimeError)"

definition LayerNorm_shape :: "int \<Rightarrow> shape \<Rightarrow> error + shape" where
  "LayerNorm_shape normalized_shape s =
     (if s \<noteq> [] \<and> int (last s) = normalized_shape then Inr s else Inl RuntimeError)"

text \<open>A convolution without padding on the last two sizes of a 3 or 4 dimensional input.\<close>

definition conv_out :: "nat \<Rightarrow> nat \<Rightarrow> nat \<Rightarrow> nat" where
  "conv_out n kernel_size stride = (n - kernel_size) div stride + 1"

definition Conv2d_shape :: "int \<Rightarrow> nat \<Rightarrow> nat \<Rightarrow> nat \<Rightarrow> shape \<Rightarrow> error + shape" where
  "Conv2d_shape in_channels out_channels kernel_size stride s =
     (case s of
        [c, h, w] \<Rightarrow>
          (if int c = in_channels \<and> kernel_size \<le> h \<and> kernel_size \<le> w
           then Inr [out_channels, conv_out h kernel_size stride, conv_out w kernel_size stride]
           else Inl RuntimeError)
      | [b, c, h, w] \<Rightarrow>
          (if int c = in_channels \<and> kernel_size \<le> h \<and> kernel_size \<le> w
           then Inr [b, out_channels, conv_out h kernel_size stride,
                     conv_out w kernel_size stride]
           else Inl RuntimeError)
      | _ \<Rightarrow> Inl RuntimeError)"

text \<open>\<open>nn.Flatten()\<close> keeps the first size and merges the others.\<close>

definition Flatten_shape :: "shape \<Rightarrow> error + shape" where
  "Flatten_shape s =
     (case s of
        b # d # ds \<Rightarrow> Inr [b, prod_list (d # ds)]
      | _ \<Rightarrow> Inl IndexError)"

text \<open>
  The sums of the forward pass add tensors that were reshaped to the same sizes or that
  come out of shape-preserving layers; operands of different shapes are refused here.
\<close>

definition add_shape :: "shape \<Rightarrow> shape \<Rightarrow> error + shape" where
  "add_shape s t = (if s = t then Inr s else Inl RuntimeError)"

definition stack3_dim1 :: "shape \<Rightarrow> shape \<Rightarrow> shape \<Rightarrow> error + shape" where
  "stack3_dim1 r s a =
     (if r = s \<and> s = a \<and> r \<noteq> [] then Inr (hd r # 3 # tl r) else Inl RuntimeError)"

definition embed_state_shape :: "decision_transformer \<Rightarrow> shape \<Rightarrow> error + shape" where
  "embed_state_shape m s =
     bind_err (Conv2d_shape (context_len m) 32 8 4 s) (\<lambda>s.
     bind_err (Conv2d_shape 32 64 4 2 s) (\<lambda>s.
     bind_err (Conv2d_shape 64 64 3 1 s) (\<lambda>s.
     bind_err (Flatten_shape s) (\<lambda>s.
       Linear_shape 3136 (dt_h_dim m * context_len m) s))))"

text \<open>
  \<open>MaskedCausalAttention.forward\<close>. \<open>mask[..., :T, :T]\<close> has sizes
  \<open>(1, 1, min T max_T, min T max_T)\<close> and must broadcast to \<open>(B, N, T, T)\<close>.
\<close>

definition attention_shape :: "attention \<Rightarrow> shape \<Rightarrow> error + shape" where
  "attention_shape a x =
     (case x of
        [B, T, C] \<Rightarrow>
          (let N = n_heads a; D = int C div n_heads a in
           bind_err (Linear_shape (h_dim a) (3 * h_dim a) x) (\<lambda>qkv.
           bind_err (if h_dim a = 0 then Inl ValueError else Inr [B, T, nat (h_dim a)]) (\<lambda>q.
           bind_err (reshape q [int B, int T, N, D]) (\<lambda>q4.
           bind_err (if min (int T) (max_T a) = int T \<or> min (int T) (max_T a) = 1
                     then Inr [B, nat N, T, T] else Inl RuntimeError) (\<lambda>att.
           bind_err (reshape [B, T, nat N, nat D] [int B, int T, N * D]) (\<lambda>y.
             Linear_shape (h_dim a) (h_dim a) y))))))
      | _ \<Rightarrow> Inl ValueError)"

definition block_shape :: "block \<Rightarrow> shape \<Rightarrow> error + shape" where
  "block_shape b x =
     bind_err (LayerNorm_shape (h_dim (attn b)) x) (\<lambda>n1.
     bind_err (attention_shape (attn b) n1) (\<lambda>a.
     bind_err (add_shape x a) (\<lambda>x.
     bind_err (LayerNorm_shape (h_dim (attn b)) x) (\<lambda>n2.
     bind_err (Linear_shape (h_dim (attn b)) (4 * h_dim (attn b)) n2) (\<lambda>fc.
     bind_err (Linear_shape (4 * h_dim (attn b)) (h_dim (attn b)) fc) (\<lambda>pr.
       add_shape x pr))))))"

text \<open>\<open>permute(0, 2, 1, 3)\<close> and the selection \<open>h[:, i]\<close>.\<close>

definition permute_0213 :: "shape \<Rightarrow> error + shape" where
  "permute_0213 s = (case s of [b, t, l, c] \<Rightarrow> Inr [b, l, t, c] | _ \<Rightarrow> Inl RuntimeError)"

definition select_dim1 :: "nat \<Rightarrow> shape \<Rightarrow> error + shape" where
  "select_dim1 i s =
     (case s of
        b # l # rest \<Rightarrow> if i < l then Inr (b # rest) else Inl IndexError
      | _ \<Rightarrow> Inl IndexError)"

text \<open>
  \<open>DecisionTransformer.forward\<close> on the index tensors \<open>timesteps\<close> and \<open>actions\<close> and on
  the shapes of \<open>states\<close> and \<open>returns_to_go\<close>; the result is the shapes of
  \<open>(state_preds, action_preds, return_preds)\<close>.
\<close>

definition forward_shape ::
  "decision_transformer \<Rightarrow> index_tensor \<Rightarrow> shape \<Rightarrow> index_tensor \<Rightarrow> shape \<Rightarrow>
   error + shape \<times> shape \<times> shape" where
  "forward_shape m timesteps states actions' returns_to_go =
     bind_err (if states = [] then Inl IndexError else Inr (int (states ! 0))) (\<lambda>B.
     bind_err (if length (dims timesteps) < 2 then Inl IndexError
               else Inr (int (dims timesteps ! 1))) (\<lambda>T.
     bind_err (Embedding_shape (max_timestep m) (dt_h_dim m) timesteps) (\<lambda>te.
     bind_err (reshape te [B, T, dt_h_dim m]) (\<lambda>time_embeddings.
     bind_err (embed_state_shape m states) (\<lambda>se.
     bind_err (reshape se [B, T, dt_h_dim m]) (\<lambda>se.
     bind_err (add_shape se time_embeddings) (\<lambda>state_embeddings.
     bind_err (Embedding_shape (act_dim m) (dt_h_dim m) actions') (\<lambda>ae.
     bind_err (reshape ae [B, T, dt_h_dim m]) (\<lambda>ae.
     bind_err (add_shape ae time_embeddings) (\<lambda>action_embeddings.
     bind_err (Linear_shape (1 * context_len m) (dt_h_dim m * context_len m) returns_to_go) (\<lambda>re.
     bind_err (reshape re [B, T, dt_h_dim m]) (\<lambda>re.
     bind_err (add_shape re time_embeddings) (\<lambda>returns_embeddings.
     bind_err (stack3_dim1 returns_embeddings state_embeddings action_embeddings) (\<lambda>x.
     bind_err (reshape x [B, 3 * T, dt_h_dim m]) (\<lambda>x.
     bind_err (LayerNorm_shape (dt_h_dim m) x) (\<lambda>x.
     bind_err (fold_err block_shape (transformer_h m) x) (\<lambda>x.
     bind_err (LayerNorm_shape (dt_h_dim m) x) (\<lambda>h.
     bind_err (reshape h [B, T, 3, dt_h_dim m]) (\<lambda>h.
     bind_err (permute_0213 h) (\<lambda>h.
     bind_err (select_dim1 2 h) (\<lambda>h2.
     bind_err (Linear_shape (dt_h_dim m) 1 h2) (\<lambda>return_preds.
     bind_err (Linear_shape (dt_h_dim m) (state_dim m * state_dim m) h2) (\<lambda>sp.
     bind_err (reshape sp [B, T, state_dim m, state_dim m]) (\<lambda>state_preds.
     bind_err (select_dim1 1 h) (\<lambda>h1.
     bind_err (Linear_shape (dt_h_dim m) (act_dim m) h1) (\<lambda>action_preds.
       Inr (state_preds, action_preds, return_preds)))))))))))))))))))))))))))"

section \<open>The forward pass on values\<close>

text \<open>
  The computation of \<open>DecisionTransformer.forward\<close> for one element of the batch (every
  operation of the forward pass treats the elements of the batch independently), on
  inputs whose shapes pass the checks of the previous section. Numbers are reals;
  dropout is disabled. A vector is a list of reals, a sequence of tokens a list of
  vectors.
\<close>

type_synonym vec = "real list"

definition vadd :: "vec \<Rightarrow> vec \<Rightarrow> vec" where
  "vadd u v = map2 (+) u v"

definition dot :: "vec \<Rightarrow> vec \<Rightarrow> real" where
  "dot u v = sum_list (map2 (*) u v)"

text \<open>\<open>nn.Linear\<close>: \<open>weight\<close> has one row for each output.\<close>

record linear =
  weight :: "real list list"
  bias :: "real list"

definition Linear :: "linear \<Rightarrow> vec \<Rightarrow> vec" where
  "Linear l x = map2 (\<lambda>row b. dot row x + b) (weight l) (bias l)"

text \<open>\<open>nn.LayerNorm\<close> over the last dimension, with the default \<open>eps\<close>.\<close>

record layer_norm =
  ln_weight :: "real list"
  ln_bias :: "real list"

definition LayerNorm :: "layer_norm \<Rightarrow> vec \<Rightarrow> vec" where
  "LayerNorm p x =
     (let n = real (length x);
          mean = sum_list x / n;
          var = sum_list (map (\<lambda>v. (v - mean)\<^sup>2) x) / n
      in map2 (\<lambda>v (g, b). (v - mean) / sqrt (var + 1 / 100000) * g + b)
           x (zip (ln_weight p) (ln_bias p)))"

text \<open>\<open>nn.Embedding\<close>: a row of the table; an index outside the table raises.\<close>

definition Embedding :: "real list list \<Rightarrow> int \<Rightarrow> error + vec" where
  "Embedding table i =
     (if 0 \<le> i \<and> i < int (length table) then Inr (table ! nat i) else Inl IndexError)"

text \<open>
  A vector of \<open>T * h\<close> entries reshaped to \<open>(T, h)\<close>, and a sequence of \<open>3 * T\<close>
  tokens reshaped to \<open>(T, 3, h)\<close> and permuted to \<open>(3, T, h)\<close>: lane \<open>k\<close> holds the
  tokens at the positions \<open>3 * t + k\<close>.
\<close>

definition rows :: "nat \<Rightarrow> nat \<Rightarrow> 'a list \<Rightarrow> 'a list list" where
  "rows T h v = map (\<lambda>t. take h (drop (t * h) v)) [0..<T]"

definition lanes :: "nat \<Rightarrow> 'a list \<Rightarrow> 'a list list" where
  "lanes T hs = map (\<lambda>k. map (\<lambda>t. hs ! (3 * t + k)) [0..<T]) [0..<3]"

text \<open>
  \<open>torch.stack((returns, states, actions), dim=1)\<close> gives, for one element of the batch,
  the three \<open>(T, h)\<close> blocks; the reshape to \<open>(3 * T, h)\<close> reads them in row-major
  order, one block after the other.
\<close>

definition stack_dim1 :: "'a list \<Rightarrow> 'a list \<Rightarrow> 'a list \<Rightarrow> 'a list list" where
  "stack_dim1 returns_embeddings state_embeddings action_embeddings =
     [returns_embeddings, state_embeddings, action_embeddings]"

definition reshape_3T :: "'a list list \<Rightarrow> 'a list" where
  "reshape_3T stacked = concat stacked"

subsection \<open>\<open>MaskedCausalAttention.forward\<close>\<close>

record attention_w =
  w_n_heads :: nat
  w_h_dim :: nat
  w_max_T :: nat
  c_attn :: linear
  c_proj :: linear

text \<open>The buffer \<open>mask\<close>: \<open>torch.tril(torch.ones((max_T, max_T)))\<close>, as truth values.\<close>

definition tril_ones :: "nat \<Rightarrow> bool list list" where
  "tril_ones n = map (\<lambda>i. map (\<lambda>l. l \<le> i) [0..<n]) [0..<n]"

text \<open>
  \<open>att.masked_fill(mask[..., :T, :T] == 0, float('-inf'))\<close>: a filled entry is
  \<open>None\<close>, and its exponential in the softmax is 0.
\<close>

definition masked_fill :: "real list list \<Rightarrow> bool list list \<Rightarrow> real option list list" where
  "masked_fill att mask' = map2 (map2 (\<lambda>s m. if m then Some s else None)) att mask'"

fun exp_score :: "real option \<Rightarrow> real" where
  "exp_score None = 0"
| "exp_score (Some s) = exp s"

definition softmax :: "real option list \<Rightarrow> real list" where
  "softmax row = (let es = map exp_score row in map (\<lambda>e. e / sum_list es) es)"

text \<open>Head \<open>j\<close> of a vector viewed as \<open>(N, D)\<close>.\<close>

definition head :: "nat \<Rightarrow> nat \<Rightarrow> vec \<Rightarrow> vec" where
  "head D j v = take D (drop (j * D) v)"

text \<open>\<open>att @ v\<close> for one head: row \<open>i\<close> is the sum of the values weighted by row \<open>i\<close>.\<close>

definition att_matmul :: "real list list \<Rightarrow> vec list \<Rightarrow> nat \<Rightarrow> vec list" where
  "att_matmul att vs D =
     map (\<lambda>w. map (\<lambda>d. sum_list (map2 (\<lambda>wl v. wl * (v ! d)) w vs)) [0..<D]) att"

definition attention_head ::
  "attention_w \<Rightarrow> vec list \<Rightarrow> vec list \<Rightarrow> vec list \<Rightarrow> nat \<Rightarrow> vec list" where
  "attention_head a q k v j =
     (let T = length q;
          D = w_h_dim a div w_n_heads a;
          att = map (\<lambda>qi. map (\<lambda>kl. dot (head D j qi) (head D j kl) / sqrt (real D)) k) q;
          att = masked_fill att (map (take T) (take T (tril_ones (w_max_T a))));
          att = map softmax att
      in att_matmul att (map (head D j) v) D)"

definition attention_forward :: "attention_w \<Rightarrow> vec list \<Rightarrow> vec list" where
  "attention_forward a x =
     (let qkv = map (Linear (c_attn a)) x;
          q = map (take (w_h_dim a)) qkv;
          k = map (\<lambda>u. take (w_h_dim a) (drop (w_h_dim a) u)) qkv;
          v = map (\<lambda>u. take (w_h_dim a) (drop (2 * w_h_dim a) u)) qkv;
          y = map (attention_head a q k v) [0..<w_n_heads a]
      in map (\<lambda>i. Linear (c_proj a) (concat (map (\<lambda>yj. yj ! i) y))) [0..<length x])"

subsection \<open>\<open>Block.forward\<close>\<close>

text \<open>The activation \<open>nn.GELU()\<close> is an entry of the module dictionary \<open>mlp\<close>.\<close>

record block_w =
  w_attn :: attention_w
  ln_1 :: layer_norm
  ln_2 :: layer_norm
  c_fc :: linear
  mlp_c_proj :: linear
  act :: "real \<Rightarrow> real"

definition mlpf :: "block_w \<Rightarrow> vec \<Rightarrow> vec" where
  "mlpf b x = Linear (mlp_c_proj b) (map (act b) (Linear (c_fc b) x))"

definition block_forward :: "block_w \<Rightarrow> vec list \<Rightarrow> vec list" where
  "block_forward b x =
     (let x = map2 vadd x (attention_forward (w_attn b) (map (LayerNorm (ln_1 b)) x))
      in map2 vadd x (map (\<lambda>u. mlpf b (LayerNorm (ln_2 b) u)) x))"

subsection \<open>\<open>DecisionTransformer.forward\<close>\<close>

text \<open>
  The three convolutions of \<open>embed_state\<close> with their \<open>ReLU\<close> and the \<open>Flatten\<close> are one
  function from the frames of a window to the 3136 features that its \<open>Linear\<close> reads.
\<close>

record 'img transformer_w =
  t_h_dim :: nat
  t_state_dim :: nat
  embed_timestep :: "real list list"
  embed_rtg :: linear
  embed_state_conv :: "'img \<Rightarrow> vec"
  embed_state_linear :: linear
  embed_action :: "real list list"
  embed_ln :: layer_norm
  transformer_blocks :: "block_w list"
  ln_f :: layer_norm
  predict_rtg :: linear
  predict_state :: linear
  predict_action :: linear

record 'img window =
  in_timesteps :: "int list"
  in_states :: 'img
  in_actions :: "int list"
  in_returns_to_go :: "real list"

record predictions =
  state_preds :: "real list list list"
  action_preds :: "real list list"
  return_preds :: "real list list"

definition embed_all :: "real list list \<Rightarrow> int list \<Rightarrow> error + vec list" where
  "embed_all table idx = sequence_err (map (\<lambda>i. map_sum id (map tanh) (Embedding table i)) idx)"

text \<open>Lines 161 to 163: the sequence \<open>x\<close> before \<open>embed_ln\<close>.\<close>

definition input_sequence :: "vec list \<Rightarrow> vec list \<Rightarrow> vec list \<Rightarrow> vec list" where
  "input_sequence returns_embeddings state_embeddings action_embeddings =
     reshape_3T (stack_dim1 returns_embeddings state_embeddings action_embeddings)"

text \<open>Lines 165 to 170: \<open>embed_ln\<close>, the blocks in order, \<open>ln_f\<close>.\<close>

definition hidden :: "'img transformer_w \<Rightarrow> vec list \<Rightarrow> vec list" where
  "hidden P x =
     map (LayerNorm (ln_f P))
       (fold block_forward (transformer_blocks P) (map (LayerNorm (embed_ln P)) x))"

definition forward :: "'img transformer_w \<Rightarrow> 'img window \<Rightarrow> error + predictions" where
  "forward P w =
     (let T = length (in_timesteps w); h = t_h_dim P in
      bind_err (embed_all (embed_timestep P) (in_timesteps w)) (\<lambda>time_embeddings.
      let state_embeddings =
            map2 vadd
              (rows T h (map tanh
                 (Linear (embed_state_linear P) (embed_state_conv P (in_states w)))))
              time_embeddings in
      bind_err (embed_all (embed_action P) (in_actions w)) (\<lambda>ae.
      let action_embeddings = map2 vadd ae time_embeddings;
          returns_embeddings =
            map2 vadd (rows T h (map tanh (Linear (embed_rtg P) (in_returns_to_go w))))
              time_embeddings;
          x = input_sequence returns_embeddings state_embeddings action_embeddings;
          hs = lanes T (hidden P x)
      in Inr \<lparr> state_preds =
                 map (\<lambda>u. rows (t_state_dim P) (t_state_dim P) (Linear (predict_state P) u))
                   (hs ! 2),
               action_preds = map (Linear (predict_action P)) (hs ! 1),
               return_preds = map (Linear (predict_rtg P)) (hs ! 2) \<rparr>)))"

text \<open>The batch: each window in turn; the first index error ends the pass.\<close>

definition forward_batch ::
  "'img transformer_w \<Rightarrow> 'img window list \<Rightarrow> error + predictions list" where
  "forward_batch P batch = sequence_err (map (forward P) batch)"

subsection \<open>What a causal attention head computes\<close>

text \<open>
  Row \<open>i\<close> of a head written without a mask: the softmax of the scores of query \<open>i\<close>
  against the keys up to position \<open>i\<close>, applied to the values up to position \<open>i\<close>.
\<close>

definition causal_row :: "nat \<Rightarrow> nat \<Rightarrow> vec \<Rightarrow> vec list \<Rightarrow> vec list \<Rightarrow> vec" where
  "causal_row D j qi ks vs =
     (let w = softmax (map (\<lambda>kl. Some (dot (head D j qi) (head D j kl) / sqrt (real D))) ks)
      in map (\<lambda>d. sum_list (map2 (\<lambda>wl v. wl * (head D j v ! d)) w vs)) [0..<D])"

text \<open>The sequence \<open>x\<close> that \<open>forward\<close> assembles when its embedding lookups succeed.\<close>

definition assembled :: "'img transformer_w \<Rightarrow> 'img window \<Rightarrow> vec list" where
  "assembled P w =
     (let T = length (in_timesteps w);
          time_embeddings = map (\<lambda>i. map tanh (embed_timestep P ! nat i)) (in_timesteps w)
      in input_sequence
           (map2 vadd (rows T (t_h_dim P)
              (map tanh (Linear (embed_rtg P) (in_returns_to_go w)))) time_embeddings)
           (map2 vadd (rows T (t_h_dim P)
              (map tanh (Linear (embed_state_linear P) (embed_state_conv P (in_states w)))))
              time_embeddings)
           (map2 vadd (map (\<lambda>i. map tanh (embed_action P ! nat i)) (in_actions w))
              time_embeddings))"

text \<open>The action logits that \<open>forward\<close> returns for step \<open>t\<close> of a window.\<close>

definition action_logits :: "'img transformer_w \<Rightarrow> 'img window \<Rightarrow> nat \<Rightarrow> error + vec" where
  "action_logits P w t = map_sum id (\<lambda>out. action_preds out ! t) (forward P w)"

section \<open>A small model for the examples\<close>

text \<open>
  A model with \<open>h_dim = 2\<close>, \<open>context_len = 3\<close>, two actions and one block with one
  head and \<open>max_T = 9\<close>, on windows of three 84 by 84 frames. The first feature that
  the convolutions extract is the top left pixel of the frame of step 2, and the state
  embedding of step 1 reads this feature. The output projections of the block are zero,
  so that the block adds nothing to its input, and the return embedding is zero.
\<close>

definition unit_norm :: layer_norm where
  "unit_norm = \<lparr> ln_weight = [1, 1], ln_bias = [0, 0] \<rparr>"

definition tiny_block :: block_w where
  "tiny_block =
     \<lparr> w_attn = \<lparr> w_n_heads = 1, w_h_dim = 2, w_max_T = 9,
                  c_attn = \<lparr> weight = replicate 6 [1, 0], bias = replicate 6 0 \<rparr>,
                  c_proj = \<lparr> weight = replicate 2 (replicate 2 0), bias = replicate 2 0 \<rparr> \<rparr>,
       ln_1 = unit_norm, ln_2 = unit_norm,
       c_fc = \<lparr> weight = replicate 8 [1, 0], bias = replicate 8 0 \<rparr>,
       mlp_c_proj = \<lparr> weight = replicate 2 (replicate 8 0), bias = replicate 2 0 \<rparr>,
       act = (\<lambda>x. x * (1 + tanh x) / 2) \<rparr>"

definition tiny_model :: "real list list list transformer_w" where
  "tiny_model =
     \<lparr> t_h_dim = 2, t_state_dim = 84,
       embed_timestep = [[0, 0], [0, 0], [0, 0]],
       embed_rtg = \<lparr> weight = replicate 6 (replicate 3 0), bias = replicate 6 0 \<rparr>,
       embed_state_conv = (\<lambda>frames. (frames ! 2 ! 0 ! 0) # replicate 3135 0),
       embed_state_linear =
         \<lparr> weight = [replicate 3136 0, replicate 3136 0, 1 # replicate 3135 0,
                     replicate 3136 0, replicate 3136 0, replicate 3136 0],
           bias = [0, 0, 0, 0, 0, 0] \<rparr>,
       embed_action = [[0, 0], [1, 1]],
       embed_ln = unit_norm,
       transformer_blocks = [tiny_block],
       ln_f = unit_norm,
       predict_rtg = \<lparr> weight = [[0, 0]], bias = [0] \<rparr>,
       predict_state = \<lparr> weight = replicate 7056 [0, 0], bias = replicate 7056 0 \<rparr>,
       predict_action = \<lparr> weight = [[1, 0], [0, 1]], bias = [0, 0] \<rparr> \<rparr>"

text \<open>A frame of one grey level, and a window with the given actions and frames.\<close>

definition frame :: "real \<Rightarrow> real list list" where
  "frame v = replicate 84 (replicate 84 v)"

definition tiny_window :: "int list \<Rightarrow> real list list list \<Rightarrow> real list list list window" where
  "tiny_window acts frames =
     \<lparr> in_timesteps = [0, 1, 2], in_states = frames, in_actions = acts,
       in_returns_to_go = [10, 9, 8] \<rparr>"

text \<open>
  What \<open>unit_norm\<close> does to a pair \<open>[a, b]\<close>: with \<open>d = (a - b) / 2\<close> the result is
  \<open>[unit_scale d, - unit_scale d]\<close>.
\<close>

definition unit_scale :: "real \<Rightarrow> real" where
  "unit_scale x = x / sqrt (x\<^sup>2 + 1 / 100000)"

chapter \<open>Properties\<close>

section \<open>Returns-to-go\<close>

lemma accumulate_before_length [simp]:
  "length (accumulate_before rs i a) = length a"
proof -
  have "length (fold (\<lambda>j a. a[i := a ! i + rs ! j]) js a) = length a" for js
    by (induction js arbitrary: a) simp_all
  then show ?thesis by (simp add: accumulate_before_def)
qed

lemma accumulate_fold_other:
  "k \<noteq> i \<Longrightarrow> fold (\<lambda>j a. a[i := a ! i + rs ! j]) js a ! k = a ! k"
  by (induction js arbitrary: a) simp_all

lemma accumulate_fold_at:
  "i < length a \<Longrightarrow>
   fold (\<lambda>j a. a[i := a ! i + rs ! j]) js a ! i = a ! i + sum_list (map ((!) rs) js)"
  by (induction js arbitrary: a) (simp_all add: add.assoc)

lemma accumulate_before_other:
  "k \<noteq> i \<Longrightarrow> accumulate_before rs i a ! k = a ! k"
  by (simp add: accumulate_before_def accumulate_fold_other)

lemma accumulate_before_at:
  assumes "i < length a" and "i \<le> length rs"
  shows "accumulate_before rs i a ! i = a ! i + sum_list (take i rs)"
proof -
  have "map ((!) rs) [0..<i] = take i rs"
    using assms(2) by (intro nth_equalityI) simp_all
  then show ?thesis
    using assms(1) by (simp add: accumulate_before_def accumulate_fold_at)
qed

lemma returns_step_length [simp]:
  "length (returns_step rs tr i a) = length a"
  by (simp add: returns_step_def Let_def)

lemma returns_step_other:
  "k \<noteq> i \<Longrightarrow> returns_step rs tr i a ! k = a ! k"
  by (simp add: returns_step_def Let_def accumulate_before_other)

lemma returns_step_at:
  "i < length a \<Longrightarrow> i \<le> length rs \<Longrightarrow>
   returns_step rs tr i a ! i = tr - (a ! i + sum_list (take i rs))"
  by (simp add: returns_step_def Let_def accumulate_before_at)

lemma returns_fold_invariant:
  fixes tr :: real
  assumes "k \<le> length rs"
  shows "length (fold (returns_step rs tr) [0..<k] (replicate (length rs) 0))
           = length rs \<and>
         (\<forall>i<k. fold (returns_step rs tr) [0..<k] (replicate (length rs) 0) ! i
                  = tr - sum_list (take i rs)) \<and>
         (\<forall>i. k \<le> i \<and> i < length rs \<longrightarrow>
              fold (returns_step rs tr) [0..<k] (replicate (length rs) 0) ! i = 0)"
  using assms
proof (induction k)
  case 0
  show ?case by simp
next
  case (Suc k)
  let ?a = "fold (returns_step rs tr) [0..<k] (replicate (length rs) 0)"
  from Suc have k: "k < length rs" by simp
  from Suc k have len: "length ?a = length rs"
    and before: "\<forall>i<k. ?a ! i = tr - sum_list (take i rs)"
    and zero: "\<forall>i. k \<le> i \<and> i < length rs \<longrightarrow> ?a ! i = 0"
    by simp_all
  have step: "fold (returns_step rs tr) [0..<Suc k] (replicate (length rs) 0)
              = returns_step rs tr k ?a"
    by simp
  have "returns_step rs tr k ?a ! i = tr - sum_list (take i rs)" if "i < Suc k" for i
  proof (cases "i = k")
    case True
    then show ?thesis using k len zero by (simp add: returns_step_at)
  next
    case False
    then show ?thesis using that before by (simp add: returns_step_other)
  qed
  moreover have "returns_step rs tr k ?a ! i = 0"
    if "Suc k \<le> i \<and> i < length rs" for i
    using that zero by (simp add: returns_step_other)
  ultimately show ?case unfolding step using len by simp
qed

lemma get_returns_length: "length (get_returns rs tr) = length rs"
  using returns_fold_invariant [of "length rs" rs tr]
  by (simp add: get_returns_def)

lemma get_returns_nth:
  "i < length rs \<Longrightarrow> get_returns rs tr ! i = tr - sum_list (take i rs)"
  using returns_fold_invariant [of "length rs" rs tr]
  by (simp add: get_returns_def)

lemma sum_list_replicate_one: "sum_list (replicate n (1::real)) = real n"
  by (induction n) simp_all

text \<open>
  Claim C3. Entry \<open>i\<close> of the array returned by \<open>get_returns\<close> is the target return
  minus the sum of the rewards at the positions strictly before \<open>i\<close>; the array is as
  long as the reward list; and for rewards all equal to 1 with target return 10 the
  entries are 10, 9, 8 and so on.
\<close>

theorem get_returns_prefix_sum:
  "length (get_returns rs target_return) = length rs \<and>
   (i < length rs \<longrightarrow>
      get_returns rs target_return ! i = target_return - sum_list (take i rs)) \<and>
   (i < n \<longrightarrow> get_returns (replicate n 1) 10 ! i = 10 - real i)"
  by (simp add: get_returns_length get_returns_nth sum_list_replicate_one min_def)

theorem get_returns_prefix_sum_witness:
  "(2::nat) < length [1, 1, 1, 1 :: real] \<and> get_returns [1, 1, 1, 1] 10 ! 2 = 8 \<and>
   get_returns (replicate 4 1) 10 ! 2 = 8"
  using get_returns_prefix_sum [of "[1, 1, 1, 1]" 10 2 4]
  by (simp add: numeral_eq_Suc)

lemma get_returns_four_ones: "get_returns [1, 1, 1, 1] 10 = [10, 9, 8, 7]"
  by (simp add: get_returns_def returns_step_def accumulate_before_def upt_rec Let_def)

text \<open>
  Claim C4. For rewards that are all non-negative the returns-to-go are non-increasing:
  for indices \<open>i \<le> j\<close> of the array, the entry at \<open>i\<close> is at least the entry at \<open>j\<close>.
\<close>

theorem get_returns_nonincreasing:
  assumes "\<forall>r \<in> set rs. 0 \<le> r" and "i \<le> j" and "j < length rs"
  shows "get_returns rs target_return ! j \<le> get_returns rs target_return ! i"
proof -
  have "take j rs = take i rs @ take (j - i) (drop i rs)"
    using assms(2) by (metis le_add_diff_inverse take_add)
  moreover have "0 \<le> sum_list (take (j - i) (drop i rs))"
    using assms(1) by (intro sum_list_nonneg) (auto dest!: in_set_takeD in_set_dropD)
  ultimately have "sum_list (take i rs) \<le> sum_list (take j rs)" by simp
  then show ?thesis using assms(2,3) by (simp add: get_returns_nth)
qed

theorem get_returns_nonincreasing_witness:
  "list_all (\<lambda>r. 0 \<le> r) [1, 0, 2 :: real] \<and> (0::nat) \<le> 2 \<and> (2::nat) < length [1, 0, 2 :: real] \<and>
   get_returns [1, 0, 2] 10 ! 2 \<le> get_returns [1, 0, 2] 10 ! 0"
  using get_returns_nonincreasing [of "[1, 0, 2]" 0 2 10] by simp

section \<open>The context manager\<close>

lemma py_slice_from_neg:
  "0 < c \<Longrightarrow> py_slice_from xs (- c) = drop (length xs - nat c) xs"
  by (simp add: py_slice_from_def nat_diff_distrib')

lemma py_slice_from_neg_Suc:
  assumes "1 < c"
  shows "py_slice_from xs (1 - c) = drop (length xs - (nat c - 1)) xs"
proof -
  have "nat (int (length xs) + (1 - c)) = length xs - (nat c - 1)"
    using assms by linarith
  then show ?thesis using assms by (simp add: py_slice_from_def)
qed

lemma py_slice_from_zero [simp]: "py_slice_from xs 0 = xs"
  by (simp add: py_slice_from_def)

lemma py_slice_from_idem_neg:
  "0 < c \<Longrightarrow> py_slice_from (py_slice_from xs (- c)) (- c) = py_slice_from xs (- c)"
  by (simp add: py_slice_from_neg)

lemma reshape_check_exact:
  "\<forall>d \<in> set sizes. 0 \<le> d \<Longrightarrow> int n = prod_list sizes \<Longrightarrow>
   reshape_check sizes n = Inr ()"
proof -
  assume nonneg: "\<forall>d \<in> set sizes. 0 \<le> d" and eq: "int n = prod_list sizes"
  have f: "filter (\<lambda>d. d \<noteq> - 1) sizes = sizes" "filter (\<lambda>d. d = - 1) sizes = []"
    using nonneg by (auto simp: filter_id_conv filter_empty_conv)
  have "\<not> (\<exists>d \<in> set sizes. d < - 1)" "- 1 \<notin> set sizes"
    using nonneg by force+
  then show ?thesis
    using eq by (simp add: reshape_check_def infer_size_def f)
qed

lemma reshape_check_mismatch:
  "\<forall>d \<in> set sizes. 0 \<le> d \<Longrightarrow> int n \<noteq> prod_list sizes \<Longrightarrow>
   reshape_check sizes n = Inl RuntimeError"
proof -
  assume nonneg: "\<forall>d \<in> set sizes. 0 \<le> d" and eq: "int n \<noteq> prod_list sizes"
  have f: "filter (\<lambda>d. d \<noteq> - 1) sizes = sizes" "filter (\<lambda>d. d = - 1) sizes = []"
    using nonneg by (auto simp: filter_id_conv filter_empty_conv)
  have "\<not> (\<exists>d \<in> set sizes. d < - 1)" "- 1 \<notin> set sizes"
    using nonneg by force+
  then show ?thesis
    using eq by (simp add: reshape_check_def infer_size_def f)
qed

lemma truncate_trajectory_steps [simp]:
  "steps (truncate_trajectory tr c) = steps tr"
  by (simp add: truncate_trajectory_def)

lemma make_action_steps: "steps (fst (make_action policy rnd tr c)) = steps tr"
  by (simp add: make_action_def pack_full_def Let_def split: prod.splits)

lemma make_action_filling_unchanged:
  "int (length (observations tr)) < c \<Longrightarrow> fst (make_action policy rnd tr c) = tr"
  by (simp add: make_action_def)

lemma make_action_full_trajectory:
  "length (observations tr) \<noteq> 0 \<Longrightarrow> c \<le> int (length (observations tr)) \<Longrightarrow>
   fst (make_action policy rnd tr c) = truncate_trajectory tr c"
  by (simp add: make_action_def pack_full_def Let_def split: prod.splits)

lemma truncate_trajectory_recent:
  assumes "2 \<le> c"
  shows "observations (truncate_trajectory tr c)
           = drop (length (observations tr) - nat c) (observations tr)"
    and "rewards (truncate_trajectory tr c) = drop (length (rewards tr) - nat c) (rewards tr)"
    and "actions (truncate_trajectory tr c)
           = drop (length (actions tr) - (nat c - 1)) (actions tr)"
  using assms
  by (simp_all add: truncate_trajectory_def py_slice_from_neg py_slice_from_neg_Suc)

lemma truncate_trajectory_lengths:
  assumes "2 \<le> c" and "c \<le> int (length (observations tr))"
    and "length (rewards tr) = length (observations tr)"
    and "length (actions tr) + 1 = length (observations tr)"
  shows "length (observations (truncate_trajectory tr c)) = nat c"
    and "length (rewards (truncate_trajectory tr c)) = nat c"
    and "length (actions (truncate_trajectory tr c)) = nat c - 1"
  using assms by (simp_all add: truncate_trajectory_recent)

lemma pack_full_query:
  assumes "2 \<le> c" and "c \<le> int (length (observations tr))"
    and "length (rewards tr) = length (observations tr)"
    and "length (actions tr) + 1 = length (observations tr)"
    and "c \<le> int (length (steps tr))"
  shows "pack_full tr c =
           (truncate_trajectory tr c,
            Inr \<lparr> q_states = observations (truncate_trajectory tr c),
                  q_actions = actions (truncate_trajectory tr c),
                  q_timesteps = steps tr ! (length (steps tr) - nat c),
                  q_rtgs = get_returns (rewards (truncate_trajectory tr c)) 200 \<rparr>)"
proof -
  let ?tr = "truncate_trajectory tr c"
  note len = truncate_trajectory_lengths [OF assms(1-4)]
  have c0: "0 < c" "1 < c" using assms(1) by simp_all
  have s: "py_slice_from (observations ?tr) (- c) = observations ?tr"
    using len(1) by (simp add: py_slice_from_neg [OF c0(1)])
  have a: "py_slice_from (actions ?tr) (1 - c) = actions ?tr"
    using len(3) c0 by (simp add: py_slice_from_neg_Suc [OF c0(2)])
  have g: "py_slice_from (get_returns (rewards ?tr) 200) (- c) = get_returns (rewards ?tr) 200"
    using len(2) by (simp add: py_slice_from_neg [OF c0(1)] get_returns_length)
  have r1: "reshape_check [1, c, 4, 84, 84] (length (observations ?tr) * obs_numel) = Inr ()"
    using c0 len(1) by (intro reshape_check_exact) (simp_all add: obs_numel_def)
  have r2: "reshape_check [1, c - 1, 1] (length (actions ?tr)) = Inr ()"
    using c0 len(3) by (intro reshape_check_exact) (simp_all add: nat_diff_distrib')
  have r3: "reshape_check [1, c, 1] (length (get_returns (rewards ?tr) 200)) = Inr ()"
    using c0 len(2) by (intro reshape_check_exact) (simp_all add: get_returns_length)
  have ix: "py_index (steps tr) (- c) = Inr (steps tr ! (length (steps tr) - nat c))"
    using c0 assms(5) by (simp add: py_index_def nat_diff_distrib')
  show ?thesis
    by (simp add: pack_full_def Let_def s a g r1 r2 r3 ix)
qed

text \<open>
  Claim C5 (window truncation), evaluated where the code departs from it. With
  \<open>context_len = 1\<close> the slice \<open>actions[-context_len+1:]\<close> is \<open>actions[0:]\<close>, the whole
  list: on the trajectory the decision loop has built after its second step (two
  observations, one action, two rewards) the managed context keeps one action where
  \<open>context_len - 1 = 0\<close> are claimed, and the reshape to \<open>(1, context_len - 1, 1)\<close> that
  follows raises. For \<open>context_len \<ge> 2\<close> the counts are those claimed
  (\<open>truncate_trajectory_lengths\<close>, \<open>pack_full_query\<close>).
\<close>

theorem window_truncation_context_len_one:
  "pack_full \<lparr> observations = [10, 11 :: nat], actions = [2 :: nat], rewards = [0, 1],
               steps = [0, 1] \<rparr> 1
   = (\<lparr> observations = [11], actions = [2], rewards = [1], steps = [0, 1] \<rparr>,
      Inl RuntimeError) \<and>
   length (actions (fst (pack_full \<lparr> observations = [10, 11 :: nat], actions = [2 :: nat],
               rewards = [0, 1], steps = [0, 1] \<rparr> 1))) = 1"
  by (simp add: pack_full_def truncate_trajectory_def py_slice_from_def Let_def
      reshape_check_def infer_size_def obs_numel_def)

text \<open>
  Claim C10 (the effect of \<open>make_action\<close> on its argument), evaluated where the code
  departs from it. On the same input \<open>make_action\<close> leaves \<open>observations\<close> and
  \<open>rewards\<close> cut to their last entry and \<open>steps\<close> untouched, but \<open>actions\<close> is left
  whole instead of cut to its last \<open>context_len - 1 = 0\<close> entries, and the call raises.
  The other parts of the claim hold: \<open>steps\<close> is never assigned
  (\<open>make_action_steps\<close>), the trajectory is unchanged with fewer than \<open>context_len\<close>
  observations (\<open>make_action_filling_unchanged\<close>), and for \<open>context_len \<ge> 2\<close> the three
  lists are cut to their most recent entries (\<open>truncate_trajectory_recent\<close>).
\<close>

theorem make_action_effect_context_len_one:
  "make_action (\<lambda>q. 0) 0
     \<lparr> observations = [10, 11 :: nat], actions = [2 :: nat], rewards = [0, 1],
       steps = [0, 1] \<rparr> 1
   = (\<lparr> observations = [11], actions = [2], rewards = [1], steps = [0, 1] \<rparr>,
      Inl RuntimeError)"
  by (simp add: make_action_def pack_full_def truncate_trajectory_def py_slice_from_def Let_def
      reshape_check_def infer_size_def obs_numel_def)

section \<open>Dataset preparation\<close>

lemma bind_err_Inr [simp]: "bind_err (Inr x) f = f x"
  by (simp add: bind_err_def)

lemma bind_err_Inl [simp]: "bind_err (Inl e) f = Inl e"
  by (simp add: bind_err_def)

lemma bind_err_eq_Inr:
  "bind_err m f = Inr y \<longleftrightarrow> (\<exists>x. m = Inr x \<and> f x = Inr y)"
  by (cases m) simp_all

lemma fold_err_append:
  "fold_err f (xs @ ys) s = bind_err (fold_err f xs s) (fold_err f ys)"
  by (induction xs arbitrary: s) (simp_all add: bind_err_def split: sum.splits)

lemma np_index_eq_Inr: "np_index xs i = Inr x \<longleftrightarrow> i < length xs \<and> x = xs ! i"
  by (auto simp: np_index_def)

lemma next_observation_inside:
  "i + 1 < length obs \<Longrightarrow> next_observation obs i = Inr (obs ! (i + 1))"
  by (simp add: next_observation_def np_index_def)

lemma next_observation_last:
  "i + 1 = length obs \<Longrightarrow> next_observation obs i = Inr (obs ! i)"
  by (simp add: next_observation_def np_index_def)

lemma next_observation_outside:
  "length obs \<le> i \<Longrightarrow> next_observation obs i = Inl IndexError"
  by (simp add: next_observation_def np_index_def)

lemma next_observation_eq_Inr:
  "next_observation obs i = Inr x \<longleftrightarrow>
     i < length obs \<and> x = (if i + 1 < length obs then obs ! (i + 1) else obs ! i)"
  by (auto simp: next_observation_def np_index_def)

text \<open>
  Claim C7. In both dataset loops the next observation stored for sample \<open>i\<close> is
  \<open>observations[i+1]\<close> when \<open>i + 1\<close> is an index of the array, and the sample's own
  observation when \<open>i\<close> is the last index; the lookup itself does not fail there.
\<close>

theorem next_observation_fallback:
  "(i + 1 < length (ds_observations ds) \<longrightarrow>
      next_observation (ds_observations ds) i = Inr (ds_observations ds ! (i + 1))) \<and>
   (i + 1 = length (ds_observations ds) \<longrightarrow>
      next_observation (ds_observations ds) i = Inr (ds_observations ds ! i)) \<and>
   (collect_sample ds i d = Inr d' \<longrightarrow>
      e_next_observations d' = e_next_observations d @
        [if i + 1 < length (ds_observations ds) then ds_observations ds ! (i + 1)
         else ds_observations ds ! i]) \<and>
   (collect_sample_mixed ds i (d, s) = Inr (d'', s') \<longrightarrow>
      e_next_observations d'' = e_next_observations d @
        [if i + 1 < length (ds_observations ds) then ds_observations ds ! (i + 1)
         else ds_observations ds ! i])"
proof (intro conjI impI)
  assume "collect_sample ds i d = Inr d'"
  then show "e_next_observations d' = e_next_observations d @
        [if i + 1 < length (ds_observations ds) then ds_observations ds ! (i + 1)
         else ds_observations ds ! i]"
    unfolding collect_sample_def bind_err_eq_Inr next_observation_eq_Inr by auto
next
  assume "collect_sample_mixed ds i (d, s) = Inr (d'', s')"
  then show "e_next_observations d'' = e_next_observations d @
        [if i + 1 < length (ds_observations ds) then ds_observations ds ! (i + 1)
         else ds_observations ds ! i]"
    unfolding collect_sample_mixed_def prod.case bind_err_eq_Inr next_observation_eq_Inr by auto
qed (simp_all add: next_observation_inside next_observation_last)

theorem next_observation_fallback_witness:
  "(0::nat) + 1 < length [10, 11 :: nat] \<and> next_observation [10, 11 :: nat] 0 = Inr 11 \<and>
   (1::nat) + 1 = length [10, 11 :: nat] \<and> next_observation [10, 11 :: nat] 1 = Inr 11 \<and>
   collect_sample
     \<lparr> ds_observations = [10, 11 :: nat], ds_actions = [0, 1 :: nat], ds_rewards = [0, 0],
       ds_terminals = [False, True], ds_timeouts = None \<rparr> 1 empty_episode
   = Inr \<lparr> e_observations = [11], e_next_observations = [11], e_actions = [1],
           e_rewards = [0], e_terminals = [True] \<rparr> \<and>
   collect_sample_mixed
     \<lparr> ds_observations = [10, 11 :: nat], ds_actions = [0, 1 :: nat], ds_rewards = [0, 0],
       ds_terminals = [False, True], ds_timeouts = None \<rparr> 1 (empty_episode, 0)
   = Inr (\<lparr> e_observations = [11], e_next_observations = [11], e_actions = [1],
            e_rewards = [0], e_terminals = [True] \<rparr>, 0)"
proof -
  let ?ds = "\<lparr> ds_observations = [10, 11 :: nat], ds_actions = [0, 1 :: nat],
    ds_rewards = [0, 0], ds_terminals = [False, True], ds_timeouts = None \<rparr>"
  have inside: "next_observation [10, 11 :: nat] 0 = Inr 11"
    using next_observation_fallback [of 0 ?ds, THEN conjunct1] by simp
  have last: "next_observation [10, 11 :: nat] 1 = Inr 11"
    using next_observation_fallback [of 1 ?ds, THEN conjunct2, THEN conjunct1] by simp
  have "collect_sample ?ds 1 empty_episode
        = Inr \<lparr> e_observations = [11], e_next_observations = [11], e_actions = [1],
           e_rewards = [0], e_terminals = [True] \<rparr>"
    by (simp add: collect_sample_def next_observation_def np_index_def empty_episode_def)
  moreover have "collect_sample_mixed ?ds 1 (empty_episode, 0)
        = Inr (\<lparr> e_observations = [11], e_next_observations = [11], e_actions = [1],
           e_rewards = [0], e_terminals = [True] \<rparr>, 0)"
    by (simp add: collect_sample_mixed_def next_observation_def np_index_def empty_episode_def)
  ultimately show ?thesis using inside last by simp
qed

subsection \<open>Normalisation in the mixed path\<close>

lemma collect_sample_mixed_rewards:
  assumes "collect_sample_mixed ds i (d, s) = Inr (d', s')"
  shows "i < length (ds_rewards ds) \<and> e_rewards d' = e_rewards d @ [ds_rewards ds ! i] \<and>
         s' = s + ds_rewards ds ! i"
  using assms
  unfolding collect_sample_mixed_def prod.case bind_err_eq_Inr np_index_eq_Inr by auto

lemma segment_snoc:
  assumes "a \<le> i" and "i < length R"
  shows "take (i - a) (drop a R) @ [R ! i] = take (Suc i - a) (drop a R)"
proof -
  have "i - a < length (drop a R)" using assms by simp
  then have "take (Suc (i - a)) (drop a R) = take (i - a) (drop a R) @ [drop a R ! (i - a)]"
    by (rule take_Suc_conv_app_nth)
  moreover have "drop a R ! (i - a) = R ! i" using assms by simp
  moreover have "Suc (i - a) = Suc i - a" using assms(1) by simp
  ultimately show ?thesis by simp
qed

lemma mixed_inv_init:
  "mixed_inv ds ps0 0
     \<lparr> m_data = empty_episode, m_episode_step = 0, m_sum_reward = 0, m_paths = ps0 \<rparr>"
  by (simp add: mixed_inv_def empty_episode_def)

lemma mixed_step_inv:
  assumes inv: "mixed_inv ds ps0 i st" and step: "mixed_step ds i st = Inr st'"
  shows "mixed_inv ds ps0 (Suc i) st'"
proof -
  let ?R = "ds_rewards ds"
  from step obtain done_bool final d s where
    coll: "collect_sample_mixed ds i (m_data st, m_sum_reward st) = Inr (d, s)" and
    st': "st' = (if done_bool \<or> final
            then \<lparr> m_data = empty_episode, m_episode_step = 0 + 1, m_sum_reward = 0,
                   m_paths = m_paths st @ [episode_data d s] \<rparr>
            else \<lparr> m_data = d, m_episode_step = m_episode_step st + 1,
                   m_sum_reward = s, m_paths = m_paths st \<rparr>)"
    unfolding mixed_step_def bind_err_eq_Inr by (auto split: prod.splits)
  from collect_sample_mixed_rewards [OF coll]
  have i: "i < length ?R" and d: "e_rewards d = e_rewards (m_data st) @ [?R ! i]"
    and s: "s = m_sum_reward st + ?R ! i" by simp_all
  from inv obtain a new where a: "a \<le> i"
    and seg: "e_rewards (m_data st) = take (i - a) (drop a ?R)"
    and sum: "m_sum_reward st = sum_list (e_rewards (m_data st))"
    and new: "m_paths st = ps0 @ new"
      "list_all (normalised_episode ?R) new"
    unfolding mixed_inv_def by blast
  have d_seg: "e_rewards d = take (Suc i - a) (drop a ?R)"
    using d seg segment_snoc [OF a i] by simp
  have s_sum: "s = sum_list (e_rewards d)"
    using s d sum by simp
  show ?thesis
  proof (cases "done_bool \<or> final")
    case True
    have "e_rewards (episode_data d s) = quotients (take (Suc i - a) (drop a ?R))"
      using d_seg s_sum by (simp add: episode_data_def quotients_def)
    then have "normalised_episode ?R (episode_data d s)"
      unfolding normalised_episode_def using a i
      by (intro exI [of _ a] exI [of _ "Suc i"]) simp
    then have "list_all (normalised_episode ?R) (new @ [episode_data d s])"
      using new(2) by simp
    moreover have "m_paths st' = ps0 @ (new @ [episode_data d s])"
      using True st' new(1) by simp
    ultimately have "\<exists>new'. m_paths st' = ps0 @ new' \<and>
        list_all (normalised_episode ?R) new'"
      by blast
    moreover have "e_rewards (m_data st') = take (Suc i - Suc i) (drop (Suc i) ?R)"
      using True st' by (simp add: empty_episode_def)
    then have "\<exists>a'\<le>Suc i. e_rewards (m_data st') = take (Suc i - a') (drop a' ?R)"
      by blast
    moreover have "m_sum_reward st' = sum_list (e_rewards (m_data st'))"
      using True st' by (simp add: empty_episode_def)
    moreover have "Suc i \<le> length ?R" using i by simp
    ultimately show ?thesis
      unfolding mixed_inv_def by blast
  next
    case False
    then have eqs: "m_data st' = d" "m_sum_reward st' = s" "m_paths st' = m_paths st"
      using st' by simp_all
    have "\<exists>a'\<le>Suc i. e_rewards (m_data st') = take (Suc i - a') (drop a' ?R)"
      using a d_seg eqs(1) by (intro exI [of _ a]) simp
    moreover have "\<exists>new'. m_paths st' = ps0 @ new' \<and>
        list_all (normalised_episode ?R) new'"
      using new eqs(3) by (intro exI [of _ new]) simp
    moreover have "m_sum_reward st' = sum_list (e_rewards (m_data st'))"
      using eqs s_sum by simp
    moreover have "Suc i \<le> length ?R" using i by simp
    ultimately show ?thesis
      unfolding mixed_inv_def by blast
  qed
qed

lemma mixed_loop_inv:
  assumes "fold_err (mixed_step ds) [0..<n]
             \<lparr> m_data = empty_episode, m_episode_step = 0, m_sum_reward = 0, m_paths = ps0 \<rparr>
           = Inr st"
  shows "mixed_inv ds ps0 n st"
  using assms
proof (induction n arbitrary: st)
  case 0
  then show ?case using mixed_inv_init [of ds ps0] by simp
next
  case (Suc n)
  then obtain mid where
    "fold_err (mixed_step ds) [0..<n]
       \<lparr> m_data = empty_episode, m_episode_step = 0, m_sum_reward = 0, m_paths = ps0 \<rparr>
     = Inr mid" and "mixed_step ds n mid = Inr st"
    by (auto simp: fold_err_append bind_err_eq_Inr)
  then show ?case using Suc.IH mixed_step_inv by blast
qed

lemma quotients_nonzero:
  assumes "sum_list seg \<noteq> 0"
  shows "quotients seg = map (\<lambda>r. Finite (r / sum_list seg)) seg"
    and "sum_list (map (\<lambda>r. r / sum_list seg) seg) = 1"
proof -
  show "quotients seg = map (\<lambda>r. Finite (r / sum_list seg)) seg"
    using assms by (simp add: quotients_def np_true_divide_def)
  have "sum_list (map (\<lambda>r. r / c) xs) = sum_list xs / c" for c :: real and xs
    by (induction xs) (simp_all add: add_divide_distrib)
  then show "sum_list (map (\<lambda>r. r / sum_list seg) seg) = 1"
    using assms by simp
qed

lemma quotients_zero:
  assumes "sum_list seg = 0"
  shows "\<forall>q \<in> set (quotients seg). \<not> is_finite q"
  using assms by (auto simp: quotients_def np_true_divide_def)

lemma quotients_all_zero:
  assumes "\<forall>r \<in> set seg. r = 0"
  shows "quotients seg = replicate (length seg) NaN"
proof -
  have total: "sum_list seg = 0" using assms by (induction seg) simp_all
  have "map (\<lambda>r. np_true_divide r 0) xs = replicate (length xs) NaN"
    if "\<forall>r \<in> set xs. r = 0" for xs
    using that by (induction xs) (simp_all add: np_true_divide_def)
  then show ?thesis using assms total by (simp add: quotients_def)
qed

lemma mixed_game_appends:
  assumes "mixed_game ds ps0 = Inr ps"
  shows "\<exists>new. ps = ps0 @ new \<and> list_all (normalised_episode (ds_rewards ds)) new"
proof -
  from assms obtain st where
    loop: "fold_err (mixed_step ds) [0..<length (ds_rewards ds) div 2]
             \<lparr> m_data = empty_episode, m_episode_step = 0, m_sum_reward = 0, m_paths = ps0 \<rparr>
           = Inr st" and ps: "ps = m_paths st"
    unfolding mixed_game_def by (auto simp: map_sum_def split: sum.splits)
  from mixed_loop_inv [OF loop] show ?thesis
    unfolding mixed_inv_def ps by blast
qed

lemma mixed_games_normalised:
  assumes "fold_err mixed_game games ps0 = Inr ps"
    and "list_all (\<lambda>ep. list_ex (\<lambda>ds. normalised_episode (ds_rewards ds) ep) all_games) ps0"
    and "set games \<subseteq> set all_games"
  shows "list_all (\<lambda>ep. list_ex (\<lambda>ds. normalised_episode (ds_rewards ds) ep) all_games) ps"
  using assms
proof (induction games arbitrary: ps0)
  case Nil
  then show ?case by simp
next
  case (Cons ds games)
  from Cons.prems(1) obtain mid where
    mid: "mixed_game ds ps0 = Inr mid" and rest: "fold_err mixed_game games mid = Inr ps"
    by (auto simp: bind_err_eq_Inr)
  from mixed_game_appends [OF mid] obtain new where
    new: "mid = ps0 @ new" "list_all (normalised_episode (ds_rewards ds)) new"
    by blast
  have "ds \<in> set all_games" using Cons.prems(3) by simp
  then have "list_all (\<lambda>ep. list_ex (\<lambda>ds. normalised_episode (ds_rewards ds) ep) all_games) new"
    using new(2) by (auto simp: list_all_iff list_ex_iff)
  then have "list_all (\<lambda>ep. list_ex (\<lambda>ds. normalised_episode (ds_rewards ds) ep) all_games) mid"
    using Cons.prems(2) new(1) by simp
  then show ?case
    using Cons.IH [OF rest] Cons.prems(3) by simp
qed

lemma mixed_paths_normalised:
  assumes "mixed_paths games = Inr ps"
  shows "list_all (\<lambda>ep. list_ex (\<lambda>ds. normalised_episode (ds_rewards ds) ep) games) ps"
  using mixed_games_normalised [of games "[]" ps games] assms
  by (simp add: mixed_paths_def)


text \<open>
  Claim C9. In the mixed path every episode that a game adds to \<open>paths\<close>, and so every
  episode that is saved, has its rewards divided by their sum, with no guard on the
  divisor: the saved rewards are \<open>quotients seg\<close> for the run \<open>seg\<close> of rewards collected
  for the episode. When the sum is not zero the quotients are finite and add up to 1;
  when it is zero every saved value is an infinity or a NaN, and for rewards that are all
  zero every saved value is NaN.
\<close>

theorem mixed_rewards_normalised:
  "(mixed_game ds ps0 = Inr ps \<longrightarrow>
      take (length ps0) ps = ps0 \<and>
      list_all (normalised_episode (ds_rewards ds)) (drop (length ps0) ps)) \<and>
   (mixed_paths games = Inr saved \<longrightarrow>
      list_all (\<lambda>ep. list_ex (\<lambda>ds. normalised_episode (ds_rewards ds) ep) games) saved) \<and>
   (sum_list seg \<noteq> 0 \<longrightarrow>
      quotients seg = map (\<lambda>r. Finite (r / sum_list seg)) seg \<and>
      sum_list (map (\<lambda>r. r / sum_list seg) seg) = 1) \<and>
   (sum_list seg = 0 \<longrightarrow> list_all (\<lambda>q. \<not> is_finite q) (quotients seg)) \<and>
   (list_all (\<lambda>r. r = 0) seg \<longrightarrow> quotients seg = replicate (length seg) NaN)"
proof (intro conjI impI)
  assume "mixed_game ds ps0 = Inr ps"
  from mixed_game_appends [OF this]
  show "take (length ps0) ps = ps0"
    and "list_all (normalised_episode (ds_rewards ds)) (drop (length ps0) ps)"
    by auto
next
  assume "mixed_paths games = Inr saved"
  then show "list_all (\<lambda>ep. list_ex (\<lambda>ds. normalised_episode (ds_rewards ds) ep) games) saved"
    by (rule mixed_paths_normalised)
next
  assume "sum_list seg \<noteq> 0"
  then show "quotients seg = map (\<lambda>r. Finite (r / sum_list seg)) seg"
    and "sum_list (map (\<lambda>r. r / sum_list seg) seg) = 1"
    by (rule quotients_nonzero)+
next
  assume "sum_list seg = 0"
  then show "list_all (\<lambda>q. \<not> is_finite q) (quotients seg)"
    using quotients_zero by (simp add: list_all_iff)
next
  assume "list_all (\<lambda>r. r = 0) seg"
  then show "quotients seg = replicate (length seg) NaN"
    by (intro quotients_all_zero) (simp add: list_all_iff)
qed

lemma mixed_game_two_zero_rewards:
  "mixed_game
     \<lparr> ds_observations = [10, 11, 12, 13 :: nat], ds_actions = [0, 1, 2, 3 :: nat],
       ds_rewards = [0, 0, 5, 5], ds_terminals = [False, True, False, False],
       ds_timeouts = None \<rparr> []
   = Inr [\<lparr> e_observations = [10, 11], e_next_observations = [11, 12], e_actions = [0, 1],
            e_rewards = [NaN, NaN], e_terminals = [False, True] \<rparr>]"
  by (simp add: mixed_game_def mixed_step_def collect_sample_mixed_def final_timestep_def
      next_observation_def np_index_def empty_episode_def episode_data_def np_true_divide_def
      upt_rec)

theorem mixed_rewards_normalised_witness:
  "mixed_game
     \<lparr> ds_observations = [10, 11, 12, 13 :: nat], ds_actions = [0, 1, 2, 3 :: nat],
       ds_rewards = [0, 0, 5, 5], ds_terminals = [False, True, False, False],
       ds_timeouts = None \<rparr> []
   = Inr [\<lparr> e_observations = [10, 11], e_next_observations = [11, 12], e_actions = [0, 1],
            e_rewards = [NaN, NaN], e_terminals = [False, True] \<rparr>] \<and>
   mixed_paths
     [\<lparr> ds_observations = [10, 11, 12, 13 :: nat], ds_actions = [0, 1, 2, 3 :: nat],
        ds_rewards = [0, 0, 5, 5], ds_terminals = [False, True, False, False],
        ds_timeouts = None \<rparr>]
   = Inr [\<lparr> e_observations = [10, 11], e_next_observations = [11, 12], e_actions = [0, 1],
            e_rewards = [NaN, NaN], e_terminals = [False, True] \<rparr>] \<and>
   list_all (normalised_episode [0, 0, 5, 5])
     [\<lparr> e_observations = [10, 11 :: nat], e_next_observations = [11, 12],
        e_actions = [0, 1 :: nat], e_rewards = [NaN, NaN], e_terminals = [False, True] \<rparr>] \<and>
   sum_list [1, 3 :: real] \<noteq> 0 \<and>
   quotients [1, 3] = [Finite (1 / 4), Finite (3 / 4)] \<and>
   sum_list [0, 0 :: real] = 0 \<and> list_all (\<lambda>r. r = 0) [0, 0 :: real] \<and>
   quotients [0, 0] = [NaN, NaN] \<and>
   sum_list [1, - 1 :: real] = 0 \<and> list_all (\<lambda>q. \<not> is_finite q) (quotients [1, - 1])"
proof -
  let ?ds = "\<lparr> ds_observations = [10, 11, 12, 13 :: nat], ds_actions = [0, 1, 2, 3 :: nat],
       ds_rewards = [0, 0, 5, 5], ds_terminals = [False, True, False, False],
       ds_timeouts = None \<rparr>"
  let ?ep = "\<lparr> e_observations = [10, 11 :: nat], e_next_observations = [11, 12],
        e_actions = [0, 1 :: nat], e_rewards = [NaN, NaN], e_terminals = [False, True] \<rparr>"
  have run: "mixed_game ?ds [] = Inr [?ep]"
    by (rule mixed_game_two_zero_rewards)
  have all: "mixed_paths [?ds] = Inr [?ep]"
    using run by (simp add: mixed_paths_def)
  have "list_all (normalised_episode [0, 0, 5, 5]) [?ep]"
    using mixed_rewards_normalised [of ?ds "[]" "[?ep]", THEN conjunct1] run by simp
  moreover have "list_all (\<lambda>ep. list_ex (\<lambda>ds. normalised_episode (ds_rewards ds) ep) [?ds]) [?ep]"
    using mixed_rewards_normalised [of _ _ _ "[?ds]" "[?ep]", THEN conjunct2, THEN conjunct1] all
    by blast
  moreover have "quotients [1, 3] = [Finite (1 / 4), Finite (3 / 4)]"
    using mixed_rewards_normalised [of _ _ _ _ _ "[1, 3]",
        THEN conjunct2, THEN conjunct2, THEN conjunct1]
    by simp
  moreover have "quotients [0, 0] = [NaN, NaN]"
    using mixed_rewards_normalised [of _ _ _ _ _ "[0, 0]",
        THEN conjunct2, THEN conjunct2, THEN conjunct2, THEN conjunct2]
    by simp
  moreover have "list_all (\<lambda>q. \<not> is_finite q) (quotients [1, - 1])"
    using mixed_rewards_normalised [of _ _ _ _ _ "[1, - 1]",
        THEN conjunct2, THEN conjunct2, THEN conjunct2, THEN conjunct1]
    by simp
  ultimately show ?thesis using run all by simp
qed

section \<open>Construction of the model\<close>

lemma alloc_cases: "alloc sizes = Inr () \<or> alloc sizes = Inl RuntimeError"
  by (simp add: alloc_def)

lemma alloc_nonneg: "(\<forall>d \<in> set sizes. 0 \<le> d) \<Longrightarrow> alloc sizes = Inr ()"
  by (auto simp: alloc_def)

lemma alloc_not_assertion [simp]:
  "alloc sizes \<noteq> Inl AssertionError" "alloc sizes \<noteq> Inl ZeroDivisionError"
  by (simp_all add: alloc_def)

lemma layers_not_assertion [simp]:
  "nn_Linear i out \<noteq> Inl AssertionError" "nn_Embedding k d \<noteq> Inl AssertionError"
  "nn_LayerNorm d \<noteq> Inl AssertionError" "nn_Conv2d ci co ks \<noteq> Inl AssertionError"
  "nn_Dropout p \<noteq> Inl AssertionError"
  "nn_Linear i out \<noteq> Inl ZeroDivisionError" "nn_Dropout p \<noteq> Inl ZeroDivisionError"
  by (simp_all add: nn_Linear_def nn_Embedding_def nn_LayerNorm_def nn_Conv2d_def nn_Dropout_def)

lemma bind_err_eq_Inl:
  "bind_err m f = Inl e \<longleftrightarrow> m = Inl e \<or> (\<exists>x. m = Inr x \<and> f x = Inl e)"
  by (cases m) simp_all

lemma bind_unit_eq_Inl:
  fixes m :: "error + unit"
  shows "bind_err m (\<lambda>_. k) = Inl e \<longleftrightarrow> m = Inl e \<or> (m = Inr () \<and> k = Inl e)"
  by (cases m) simp_all

lemma bind_unit_eq_Inr:
  fixes m :: "error + unit"
  shows "bind_err m (\<lambda>_. k) = Inr y \<longleftrightarrow> m = Inr () \<and> k = Inr y"
  by (cases m) simp_all

lemma assert_divisible_simps:
  "assert_divisible h n = Inl AssertionError \<longleftrightarrow> n \<noteq> 0 \<and> h mod n \<noteq> 0"
  "assert_divisible h n = Inl ZeroDivisionError \<longleftrightarrow> n = 0"
  "assert_divisible h n = Inr () \<longleftrightarrow> n \<noteq> 0 \<and> h mod n = 0"
  by (simp_all add: assert_divisible_def)

lemma attention_init_assertion:
  "MaskedCausalAttention_init h T n p = Inl AssertionError \<longleftrightarrow> n \<noteq> 0 \<and> h mod n \<noteq> 0"
  by (simp add: MaskedCausalAttention_init_def bind_unit_eq_Inl assert_divisible_simps)

lemma attention_init_zero_heads:
  "MaskedCausalAttention_init h T 0 p = Inl ZeroDivisionError"
  by (simp add: MaskedCausalAttention_init_def assert_divisible_def)

lemma attention_init_Inr:
  "MaskedCausalAttention_init h T n p = Inr a \<Longrightarrow>
   a = \<lparr> n_heads = n, h_dim = h, max_T = T \<rparr> \<and> n \<noteq> 0 \<and> h mod n = 0"
  by (auto simp: MaskedCausalAttention_init_def bind_unit_eq_Inr assert_divisible_simps)

lemma block_init_assertion:
  "Block_init h T n p = Inl AssertionError \<longleftrightarrow> n \<noteq> 0 \<and> h mod n \<noteq> 0"
  by (simp add: Block_init_def bind_err_eq_Inl bind_unit_eq_Inl attention_init_assertion)

lemma block_init_Inr:
  "Block_init h T n p = Inr b \<Longrightarrow>
   b = \<lparr> attn = \<lparr> n_heads = n, h_dim = h, max_T = T \<rparr> \<rparr> \<and> n \<noteq> 0 \<and> h mod n = 0"
  by (auto simp: Block_init_def bind_err_eq_Inr bind_unit_eq_Inr dest: attention_init_Inr)

lemma sequence_err_replicate_Inl:
  "sequence_err (replicate k m) = Inl e \<longleftrightarrow> 0 < k \<and> m = Inl e"
  by (induction k) (auto simp: bind_err_eq_Inl)

lemma sequence_err_replicate_ok:
  "sequence_err (replicate k (Inr x)) = Inr (replicate k x)"
  by (induction k) simp_all

lemma sequence_err_replicate_Inr:
  "sequence_err (replicate k m) = Inr xs \<longleftrightarrow>
     (k = 0 \<and> xs = []) \<or> (\<exists>x. m = Inr x \<and> xs = replicate k x)"
proof (cases m)
  case (Inl e)
  then show ?thesis by (cases k) auto
next
  case (Inr x)
  then show ?thesis by (auto simp: sequence_err_replicate_ok)
qed

lemma dt_init_embeddings_ok:
  assumes "0 \<le> h" "0 \<le> c" "0 \<le> ad" "0 \<le> mt"
  shows "nn_Embedding mt h = Inr ()" "nn_Linear c (h * c) = Inr ()"
    "nn_Conv2d c 32 8 = Inr ()" "nn_Conv2d 32 64 4 = Inr ()" "nn_Conv2d 64 64 3 = Inr ()"
    "nn_Linear 3136 (h * c) = Inr ()" "nn_Embedding ad h = Inr ()" "nn_LayerNorm h = Inr ()"
  using assms
  by (simp_all add: nn_Embedding_def nn_Linear_def nn_Conv2d_def nn_LayerNorm_def alloc_def
      mult_less_0_iff)

lemma dt_init_assertion:
  assumes "0 \<le> h" "0 \<le> c" "0 \<le> ad" "0 \<le> mt"
  shows "DecisionTransformer_init sd ad nb h c n p mt = Inl AssertionError \<longleftrightarrow>
           0 < nb \<and> n \<noteq> 0 \<and> h mod n \<noteq> 0"
  unfolding DecisionTransformer_init_def
  by (simp add: dt_init_embeddings_ok [OF assms] bind_err_eq_Inl bind_unit_eq_Inl
      sequence_err_replicate_Inl block_init_assertion)

lemma dt_init_no_blocks:
  assumes "nb \<le> 0"
  shows "DecisionTransformer_init sd ad nb h c n p mt \<noteq> Inl AssertionError"
  unfolding DecisionTransformer_init_def
  using assms by (simp add: bind_err_eq_Inl bind_unit_eq_Inl)

lemma dt_init_Inr:
  assumes "DecisionTransformer_init sd ad nb h c n p mt = Inr m"
  shows "m = \<lparr> state_dim = sd, act_dim = ad, dt_h_dim = h, context_len = c, max_timestep = mt,
              transformer_h = replicate (nat nb)
                \<lparr> attn = \<lparr> n_heads = n, h_dim = h, max_T = 3 * c \<rparr> \<rparr> \<rparr>"
    and "0 < nb \<Longrightarrow> n \<noteq> 0 \<and> h mod n = 0"
    and "0 \<le> h" "0 \<le> c" "0 \<le> ad" "0 \<le> mt"
proof -
  from assms obtain blocks where
    emb: "nn_Embedding mt h = Inr ()" "nn_Linear c (h * c) = Inr ()"
      "nn_Embedding ad h = Inr ()"
    and bl: "sequence_err (replicate (nat nb) (Block_init h (3 * c) n p)) = Inr blocks"
    and m: "m = \<lparr> state_dim = sd, act_dim = ad, dt_h_dim = h, context_len = c,
                 max_timestep = mt, transformer_h = blocks \<rparr>"
    unfolding DecisionTransformer_init_def bind_unit_eq_Inr bind_err_eq_Inr by auto
  from emb show "0 \<le> h" "0 \<le> c" "0 \<le> ad" "0 \<le> mt"
    by (auto simp: nn_Embedding_def nn_Linear_def alloc_def split: if_splits)
  from bl show "0 < nb \<Longrightarrow> n \<noteq> 0 \<and> h mod n = 0"
    by (auto simp: sequence_err_replicate_Inr dest: block_init_Inr)
  from bl have "blocks = replicate (nat nb) \<lparr> attn = \<lparr> n_heads = n, h_dim = h, max_T = 3 * c \<rparr> \<rparr>"
    by (auto simp: sequence_err_replicate_Inr dest: block_init_Inr)
  with m show "m = \<lparr> state_dim = sd, act_dim = ad, dt_h_dim = h, context_len = c,
              max_timestep = mt, transformer_h = replicate (nat nb)
                \<lparr> attn = \<lparr> n_heads = n, h_dim = h, max_T = 3 * c \<rparr> \<rparr> \<rparr>"
    by simp
qed

lemma dt_init_ok:
  assumes "0 \<le> h" "0 \<le> c" "0 \<le> ad" "0 \<le> mt" "0 \<le> p" "p \<le> 1"
    and "0 < nb \<longrightarrow> n \<noteq> 0 \<and> h mod n = 0"
  shows "DecisionTransformer_init sd ad nb h c n p mt =
         Inr \<lparr> state_dim = sd, act_dim = ad, dt_h_dim = h, context_len = c, max_timestep = mt,
              transformer_h = replicate (nat nb)
                \<lparr> attn = \<lparr> n_heads = n, h_dim = h, max_T = 3 * c \<rparr> \<rparr> \<rparr>"
proof -
  have drop: "nn_Dropout p = Inr ()" using assms(5,6) by (simp add: nn_Dropout_def)
  have lin: "nn_Linear h (3 * h) = Inr ()" "nn_Linear h h = Inr ()"
    "nn_Linear h (4 * h) = Inr ()" "nn_Linear (4 * h) h = Inr ()" "nn_Linear h 1 = Inr ()"
    "nn_Linear h (sd * sd) = Inr ()" "nn_Linear h ad = Inr ()" "alloc [3 * c, 3 * c] = Inr ()"
    using assms(1-4) by (simp_all add: nn_Linear_def alloc_def)
  have blocks: "sequence_err (replicate (nat nb) (Block_init h (3 * c) n p))
      = Inr (replicate (nat nb) \<lparr> attn = \<lparr> n_heads = n, h_dim = h, max_T = 3 * c \<rparr> \<rparr>)"
  proof (cases "0 < nb")
    case True
    with assms(7) have "assert_divisible h n = Inr ()" by (simp add: assert_divisible_def)
    then have "Block_init h (3 * c) n p
        = Inr \<lparr> attn = \<lparr> n_heads = n, h_dim = h, max_T = 3 * c \<rparr> \<rparr>"
      using assms(1)
      by (simp add: Block_init_def MaskedCausalAttention_init_def drop lin
          dt_init_embeddings_ok [OF assms(1-4)])
    then show ?thesis by (simp add: sequence_err_replicate_ok)
  next
    case False
    then show ?thesis by simp
  qed
  show ?thesis
    unfolding DecisionTransformer_init_def
    by (simp add: dt_init_embeddings_ok [OF assms(1-4)] blocks lin)
qed

text \<open>
  Claim C6, as the code has it. Constructing a \<open>MaskedCausalAttention\<close> with a non-zero
  number of heads fails with an assertion error exactly when \<open>h_dim % n_heads\<close> is not
  zero; with zero heads the modulo raises \<open>ZeroDivisionError\<close>. A
  \<open>DecisionTransformer\<close> with at least one block and non-negative sizes fails in the same
  way; with \<open>n_blocks \<le> 0\<close> no attention layer is constructed and no assertion is made.
  A construction that succeeds stores the sizes it was given, every block holds the given
  \<open>h_dim\<close> and \<open>n_heads\<close>, and if there is a block \<open>h_dim % n_heads\<close> is zero.
\<close>

theorem construction_divisibility:
  "(n \<noteq> 0 \<longrightarrow>
      (MaskedCausalAttention_init h T n p = Inl AssertionError \<longleftrightarrow> h mod n \<noteq> 0)) \<and>
   MaskedCausalAttention_init h T 0 p = Inl ZeroDivisionError \<and>
   (MaskedCausalAttention_init h T n p = Inr a \<longrightarrow>
      n_heads a = n \<and> h_dim a = h \<and> max_T a = T \<and> h mod n = 0) \<and>
   (n \<noteq> 0 \<and> 0 < nb \<and> 0 \<le> h \<and> 0 \<le> c \<and> 0 \<le> ad \<and> 0 \<le> mt \<longrightarrow>
      (DecisionTransformer_init sd ad nb h c n p mt = Inl AssertionError \<longleftrightarrow>
       h mod n \<noteq> 0)) \<and>
   (nb \<le> 0 \<longrightarrow> DecisionTransformer_init sd ad nb h c n p mt \<noteq> Inl AssertionError) \<and>
   (DecisionTransformer_init sd ad nb h c n p mt = Inr m \<longrightarrow>
      state_dim m = sd \<and> act_dim m = ad \<and> dt_h_dim m = h \<and> context_len m = c \<and>
      length (transformer_h m) = nat nb \<and>
      list_all (\<lambda>b. n_heads (attn b) = n \<and> h_dim (attn b) = h) (transformer_h m) \<and>
      (0 < nb \<longrightarrow> h mod n = 0))"
proof (intro conjI impI)
  assume "MaskedCausalAttention_init h T n p = Inr a"
  from attention_init_Inr [OF this]
  show "n_heads a = n" "h_dim a = h" "max_T a = T" "h mod n = 0" by simp_all
next
  assume "n \<noteq> 0 \<and> 0 < nb \<and> 0 \<le> h \<and> 0 \<le> c \<and> 0 \<le> ad \<and> 0 \<le> mt"
  then show "DecisionTransformer_init sd ad nb h c n p mt = Inl AssertionError \<longleftrightarrow>
       h mod n \<noteq> 0"
    by (simp add: dt_init_assertion)
next
  assume ok: "DecisionTransformer_init sd ad nb h c n p mt = Inr m"
  note m = dt_init_Inr(1) [OF ok]
  show "state_dim m = sd" "act_dim m = ad" "dt_h_dim m = h" "context_len m = c"
    "length (transformer_h m) = nat nb"
    by (simp_all add: m)
  show "list_all (\<lambda>b. n_heads (attn b) = n \<and> h_dim (attn b) = h) (transformer_h m)"
    by (simp add: m list_all_iff)
  show "h mod n = 0" if "0 < nb" using dt_init_Inr(2) [OF ok that] by simp
qed (simp_all add: attention_init_assertion attention_init_zero_heads dt_init_no_blocks)

theorem construction_divisibility_witness:
  "MaskedCausalAttention_init 5 90 2 (1 / 10) = Inl AssertionError \<and>
   MaskedCausalAttention_init 768 90 12 (1 / 10)
     = Inr \<lparr> n_heads = 12, h_dim = 768, max_T = 90 \<rparr> \<and>
   DecisionTransformer_init 84 4 1 5 30 2 (1 / 10) 1000 = Inl AssertionError \<and>
   DecisionTransformer_init 84 4 0 5 30 2 (1 / 10) 1000 \<noteq> Inl AssertionError \<and>
   DecisionTransformer_init 84 4 1 16 30 2 (1 / 10) 1000
     = Inr \<lparr> state_dim = 84, act_dim = 4, dt_h_dim = 16, context_len = 30,
             max_timestep = 1000,
             transformer_h = [\<lparr> attn = \<lparr> n_heads = 2, h_dim = 16, max_T = 90 \<rparr> \<rparr>] \<rparr> \<and>
   (16 :: int) mod 2 = 0"
proof -
  have a: "MaskedCausalAttention_init 5 90 2 (1 / 10) = Inl AssertionError"
    using construction_divisibility [of 2 5 90 "1 / 10", THEN conjunct1] by simp
  have b: "MaskedCausalAttention_init 768 90 12 (1 / 10)
       = Inr \<lparr> n_heads = 12, h_dim = 768, max_T = 90 \<rparr>"
    by (simp add: MaskedCausalAttention_init_def assert_divisible_def nn_Linear_def
        nn_Dropout_def alloc_def)
  have c: "DecisionTransformer_init 84 4 1 5 30 2 (1 / 10) 1000 = Inl AssertionError"
    using construction_divisibility [of 2 5 _ _ _ 1 30 4 1000 84,
        THEN conjunct2, THEN conjunct2, THEN conjunct2, THEN conjunct1]
    by simp
  have d: "DecisionTransformer_init 84 4 0 5 30 2 (1 / 10) 1000 \<noteq> Inl AssertionError"
    using construction_divisibility [of 2 5 _ _ _ 0 30 4 1000 84,
        THEN conjunct2, THEN conjunct2, THEN conjunct2, THEN conjunct2, THEN conjunct1]
    by simp
  have e: "DecisionTransformer_init 84 4 1 16 30 2 (1 / 10) 1000
     = Inr \<lparr> state_dim = 84, act_dim = 4, dt_h_dim = 16, context_len = 30,
             max_timestep = 1000,
             transformer_h = [\<lparr> attn = \<lparr> n_heads = 2, h_dim = 16, max_T = 90 \<rparr> \<rparr>] \<rparr>"
    using dt_init_ok [of 16 30 4 1000 "1 / 10" 1 2 84] by simp
  have f: "(16 :: int) mod 2 = 0"
    using construction_divisibility [of 2 16 _ "1 / 10" _ 1 30 4 1000 84,
        THEN conjunct2, THEN conjunct2, THEN conjunct2, THEN conjunct2, THEN conjunct2] e
    by simp
  have g: "h_dim \<lparr> n_heads = 12, h_dim = 768, max_T = 90 \<rparr> = 768"
    using construction_divisibility [of 12 768 90 "1 / 10",
        THEN conjunct2, THEN conjunct2, THEN conjunct1] b
    by simp
  show ?thesis using a b c d e f g by simp
qed

text \<open>
  The claim as stated fails in two places: a \<open>DecisionTransformer\<close> without blocks is
  constructed although 5 is not divisible by 2, and zero heads raise
  \<open>ZeroDivisionError\<close>, not an assertion error.
\<close>

theorem construction_divisibility_counterexample:
  "\<not> (2::int) dvd 5 \<and>
   DecisionTransformer_init 84 4 0 5 30 2 (1 / 10) 1000
     = Inr \<lparr> state_dim = 84, act_dim = 4, dt_h_dim = 5, context_len = 30,
             max_timestep = 1000, transformer_h = [] \<rparr> \<and>
   \<not> (0::int) dvd 4 \<and>
   MaskedCausalAttention_init 4 90 0 (1 / 10) = Inl ZeroDivisionError"
proof -
  have "DecisionTransformer_init 84 4 0 5 30 2 (1 / 10) 1000
     = Inr \<lparr> state_dim = 84, act_dim = 4, dt_h_dim = 5, context_len = 30,
             max_timestep = 1000, transformer_h = [] \<rparr>"
    using dt_init_ok [of 5 30 4 1000 "1 / 10" 0 2 84] by simp
  then show ?thesis by (simp add: attention_init_zero_heads)
qed

section \<open>The forward pass on shapes\<close>

lemma infer_size_nonneg:
  assumes "\<forall>d \<in> set sizes. 0 \<le> d"
  shows "infer_size sizes n =
           (if int n = prod_list sizes then Inr (map nat sizes) else Inl RuntimeError)"
proof -
  have f: "filter (\<lambda>d. d \<noteq> - 1) sizes = sizes" "filter (\<lambda>d. d = - 1) sizes = []"
    using assms by (auto simp: filter_id_conv filter_empty_conv)
  have "\<not> (\<exists>d \<in> set sizes. d < - 1)" "- 1 \<notin> set sizes"
    using assms by force+
  then show ?thesis
    by (simp add: infer_size_def f)
qed

lemma reshape_nonneg:
  assumes "\<forall>d \<in> set sizes. 0 \<le> d"
  shows "reshape s sizes =
           (if int (prod_list s) = prod_list sizes then Inr (map nat sizes)
            else Inl RuntimeError)"
  by (simp add: reshape_def numel_def infer_size_nonneg [OF assms])

lemma reshape_square_Inr:
  assumes "reshape s [int B, int T, d, d] = Inr r"
  shows "r = [B, T, nat d, nat d]"
proof -
  consider "d < - 1" | "d = - 1" | "0 \<le> d" by linarith
  then show ?thesis
  proof cases
    case 1
    then show ?thesis using assms by (simp add: reshape_def infer_size_def)
  next
    case 2
    then show ?thesis using assms by (simp add: reshape_def infer_size_def)
  next
    case 3
    then show ?thesis using assms by (simp add: reshape_nonneg split: if_splits)
  qed
qed

lemma Linear_shape_Inr:
  "Linear_shape i out s = Inr r \<longleftrightarrow> s \<noteq> [] \<and> int (last s) = i \<and> r = butlast s @ [nat out]"
  by (auto simp: Linear_shape_def)

lemma Embedding_shape_Inr:
  "Embedding_shape k d x = Inr r \<longleftrightarrow>
     list_all (in_table k) (entries x) \<and> r = dims x @ [nat d]"
  by (auto simp: Embedding_shape_def)

lemma forward_shape_tail:
  assumes run: "forward_shape m ts st ac rt = Inr (sp, ap, rp)"
    and h: "0 \<le> dt_h_dim m"
  shows "st \<noteq> [] \<and> 2 \<le> length (dims ts) \<and>
         list_all (in_table (max_timestep m)) (entries ts) \<and>
         list_all (in_table (act_dim m)) (entries ac) \<and>
         sp = [st ! 0, dims ts ! 1, nat (state_dim m), nat (state_dim m)] \<and>
         ap = [st ! 0, dims ts ! 1, nat (act_dim m)] \<and>
         rp = [st ! 0, dims ts ! 1, 1]"
proof -
  from run obtain te ae x h4 hp h2 h1 spf where
    st: "st \<noteq> []" and ts: "\<not> length (dims ts) < 2"
    and te: "Embedding_shape (max_timestep m) (dt_h_dim m) ts = Inr te"
    and ae: "Embedding_shape (act_dim m) (dt_h_dim m) ac = Inr ae"
    and r4: "reshape x [int (st ! 0), int (dims ts ! 1), 3, dt_h_dim m] = Inr h4"
    and pm: "permute_0213 h4 = Inr hp"
    and sel: "select_dim1 2 hp = Inr h2"
    and rp: "Linear_shape (dt_h_dim m) 1 h2 = Inr rp"
    and spf: "Linear_shape (dt_h_dim m) (state_dim m * state_dim m) h2 = Inr spf"
    and sp: "reshape spf [int (st ! 0), int (dims ts ! 1), state_dim m, state_dim m] = Inr sp"
    and sel1: "select_dim1 1 hp = Inr h1"
    and ap: "Linear_shape (dt_h_dim m) (act_dim m) h1 = Inr ap"
    unfolding forward_shape_def bind_err_eq_Inr
    by (auto split: if_splits)
  from te ae have ids: "list_all (in_table (max_timestep m)) (entries ts)"
    "list_all (in_table (act_dim m)) (entries ac)"
    by (simp_all add: Embedding_shape_Inr)
  from r4 h have h4: "h4 = [st ! 0, dims ts ! 1, 3, nat (dt_h_dim m)]"
    by (simp add: reshape_nonneg split: if_splits)
  from pm sel have h2: "h2 = [st ! 0, dims ts ! 1, nat (dt_h_dim m)]"
    by (auto simp: h4 permute_0213_def select_dim1_def)
  from pm sel1 have h1: "h1 = [st ! 0, dims ts ! 1, nat (dt_h_dim m)]"
    by (auto simp: h4 permute_0213_def select_dim1_def)
  from rp ap have "rp = [st ! 0, dims ts ! 1, 1]" "ap = [st ! 0, dims ts ! 1, nat (act_dim m)]"
    by (simp_all add: h2 h1 Linear_shape_Inr)
  moreover from sp have "sp = [st ! 0, dims ts ! 1, nat (state_dim m), nat (state_dim m)]"
    by (rule reshape_square_Inr)
  ultimately show ?thesis using st ts ids by simp
qed

lemma conv_stack_84:
  "conv_out 84 8 4 = 20" "conv_out 20 4 2 = 9" "conv_out 9 3 1 = 7"
  by (simp_all add: conv_out_def)

lemma embed_state_shape_84:
  assumes "int T = context_len m" and "0 \<le> dt_h_dim m"
  shows "embed_state_shape m [B, T, 84, 84] = Inr [B, nat (dt_h_dim m * context_len m)]"
  using assms
  by (simp add: embed_state_shape_def Conv2d_shape_def conv_out_def Flatten_shape_def
      Linear_shape_def)

lemma attention_shape_ok:
  assumes "0 < n" and "0 < h" and "h mod n = 0" and "int T \<le> mT"
  shows "attention_shape \<lparr> n_heads = n, h_dim = h, max_T = mT \<rparr> [B, T, nat h]
         = Inr [B, T, nat h]"
proof -
  have nd: "n * (h div n) = h" using assms(3) by auto
  have d: "0 < h div n" using assms(1,2,3)
    by (metis nd zero_less_mult_pos)
  have q: "reshape [B, T, nat h] [int B, int T, n, h div n] = Inr [B, T, nat n, nat (h div n)]"
    using assms(1,2) d nd by (simp add: reshape_nonneg)
  have y: "reshape [B, T, nat n, nat (h div n)] [int B, int T, n * (h div n)]
           = Inr [B, T, nat h]"
    using assms(1,2) d by (simp add: reshape_nonneg nd nat_mult_distrib [symmetric])
  show ?thesis
    using assms(1,2,4)
    by (simp add: attention_shape_def Let_def Linear_shape_def q y min_def)
qed

lemma block_shape_ok:
  assumes "0 < n" and "0 < h" and "h mod n = 0" and "int T \<le> mT"
  shows "block_shape \<lparr> attn = \<lparr> n_heads = n, h_dim = h, max_T = mT \<rparr> \<rparr> [B, T, nat h]
         = Inr [B, T, nat h]"
  using assms(2)
  by (simp add: block_shape_def LayerNorm_shape_def attention_shape_ok [OF assms]
      add_shape_def Linear_shape_def)

lemma fold_err_replicate_fixed:
  "f b x = Inr x \<Longrightarrow> fold_err f (replicate k b) x = Inr x"
  by (induction k) simp_all

lemma forward_shape_ok:
  assumes h: "0 < h" and sd: "0 \<le> sd" and ad: "0 \<le> ad"
    and heads: "0 < nb \<longrightarrow> 0 < n \<and> h mod n = 0"
  shows "forward_shape
           \<lparr> state_dim = sd, act_dim = ad, dt_h_dim = h, context_len = int T,
             max_timestep = mt,
             transformer_h = replicate (nat nb)
               \<lparr> attn = \<lparr> n_heads = n, h_dim = h, max_T = 3 * int T \<rparr> \<rparr> \<rparr>
           \<lparr> dims = [B, T], entries = tv \<rparr> [B, T, 84, 84]
           \<lparr> dims = [B, T], entries = av \<rparr> [B, T]
         = (if list_all (in_table mt) tv \<and> list_all (in_table ad) av
            then Inr ([B, T, nat sd, nat sd], [B, T, nat ad], [B, T, 1])
            else Inl IndexError)"
proof -
  let ?m = "\<lparr> state_dim = sd, act_dim = ad, dt_h_dim = h, context_len = int T,
             max_timestep = mt,
             transformer_h = replicate (nat nb)
               \<lparr> attn = \<lparr> n_heads = n, h_dim = h, max_T = 3 * int T \<rparr> \<rparr> \<rparr>"
  have es: "embed_state_shape ?m [B, T, 84, 84] = Inr [B, nat (h * int T)]"
    using embed_state_shape_84 [of T ?m B] h by simp
  have hT: "nat (h * int T) = nat h * T"
    using h by (simp add: nat_mult_distrib)
  have n3: "nat (3 * int T) = 3 * T" by simp
  have blocks: "fold_err block_shape
      (replicate (nat nb) \<lparr> attn = \<lparr> n_heads = n, h_dim = h, max_T = 3 * int T \<rparr> \<rparr>)
      [B, 3 * T, nat h] = Inr [B, 3 * T, nat h]"
  proof (cases "0 < nb")
    case True
    with heads have "0 < n" "h mod n = 0" by simp_all
    then have "block_shape \<lparr> attn = \<lparr> n_heads = n, h_dim = h, max_T = 3 * int T \<rparr> \<rparr>
                 [B, 3 * T, nat h] = Inr [B, 3 * T, nat h]"
      using h by (intro block_shape_ok) simp_all
    then show ?thesis by (simp add: fold_err_replicate_fixed)
  next
    case False
    then show ?thesis by simp
  qed
  have sq: "nat (sd * sd) = nat sd * nat sd"
    using sd by (simp add: nat_mult_distrib)
  show ?thesis
    unfolding forward_shape_def
    using h sd ad
    by (simp add: Embedding_shape_def reshape_nonneg es hT add_shape_def Linear_shape_def
        stack3_dim1_def LayerNorm_shape_def n3 blocks permute_0213_def select_dim1_def sq)
qed

text \<open>
  Claim C8, as the code has it. For a model that was constructed, whenever the forward
  pass returns, with \<open>B\<close> the first size of \<open>states\<close> and \<open>T\<close> the second size of
  \<open>timesteps\<close>, every timestep lies in \<open>[0, max_timestep)\<close>, every action in
  \<open>[0, act_dim)\<close>, and the shapes of \<open>state_preds\<close>, \<open>action_preds\<close> and \<open>return_preds\<close>
  are \<open>(B, T, state_dim, state_dim)\<close>, \<open>(B, T, act_dim)\<close> and \<open>(B, T, 1)\<close>. On a batch of
  \<open>B \<ge> 1\<close> windows of 84 by 84 frames whose length \<open>T \<ge> 1\<close> is the configured
  \<open>context_len\<close>, for positive \<open>h_dim\<close> and \<open>n_heads\<close> and a non-negative \<open>state_dim\<close>, it
  returns these shapes when every timestep and every action is an index of its embedding
  table, and raises \<open>IndexError\<close> otherwise.
\<close>

theorem forward_shapes:
  assumes valid: "DecisionTransformer_init sd ad nb h c n p mt = Inr m"
  shows "(forward_shape m ts st ac rt = Inr (sp, ap, rp) \<longrightarrow>
            st \<noteq> [] \<and> 2 \<le> length (dims ts) \<and>
            list_all (in_table mt) (entries ts) \<and>
            list_all (in_table ad) (entries ac) \<and>
            sp = [st ! 0, dims ts ! 1, nat sd, nat sd] \<and>
            ap = [st ! 0, dims ts ! 1, nat ad] \<and>
            rp = [st ! 0, dims ts ! 1, 1]) \<and>
         (0 < h \<and> 0 < n \<and> 0 \<le> sd \<and> 0 < B \<and> 0 < T \<and> int T = c \<and>
          length tv = B * T \<and> length av = B * T \<longrightarrow>
            forward_shape m \<lparr> dims = [B, T], entries = tv \<rparr> [B, T, 84, 84]
                \<lparr> dims = [B, T], entries = av \<rparr> [B, T]
              = (if list_all (in_table mt) tv \<and> list_all (in_table ad) av
                 then Inr ([B, T, nat sd, nat sd], [B, T, nat ad], [B, T, 1])
                 else Inl IndexError))"
proof (rule conjI; rule impI)
  note m = dt_init_Inr(1) [OF valid]
  assume "forward_shape m ts st ac rt = Inr (sp, ap, rp)"
  from forward_shape_tail [OF this] dt_init_Inr(3) [OF valid]
  show "st \<noteq> [] \<and> 2 \<le> length (dims ts) \<and>
            list_all (in_table mt) (entries ts) \<and>
            list_all (in_table ad) (entries ac) \<and>
            sp = [st ! 0, dims ts ! 1, nat sd, nat sd] \<and>
            ap = [st ! 0, dims ts ! 1, nat ad] \<and>
            rp = [st ! 0, dims ts ! 1, 1]"
    by (simp add: m)
next
  assume wf: "0 < h \<and> 0 < n \<and> 0 \<le> sd \<and> 0 < B \<and> 0 < T \<and> int T = c \<and>
          length tv = B * T \<and> length av = B * T"
  then have c: "c = int T" by simp
  have "0 < nb \<longrightarrow> 0 < n \<and> h mod n = 0"
    using dt_init_Inr(2) [OF valid] wf by simp
  then have "forward_shape
           \<lparr> state_dim = sd, act_dim = ad, dt_h_dim = h, context_len = int T,
             max_timestep = mt,
             transformer_h = replicate (nat nb)
               \<lparr> attn = \<lparr> n_heads = n, h_dim = h, max_T = 3 * int T \<rparr> \<rparr> \<rparr>
           \<lparr> dims = [B, T], entries = tv \<rparr> [B, T, 84, 84]
           \<lparr> dims = [B, T], entries = av \<rparr> [B, T]
         = (if list_all (in_table mt) tv \<and> list_all (in_table ad) av
            then Inr ([B, T, nat sd, nat sd], [B, T, nat ad], [B, T, 1])
            else Inl IndexError)"
    using wf dt_init_Inr(5) [OF valid] by (intro forward_shape_ok) simp_all
  then show "forward_shape m \<lparr> dims = [B, T], entries = tv \<rparr> [B, T, 84, 84]
                \<lparr> dims = [B, T], entries = av \<rparr> [B, T]
              = (if list_all (in_table mt) tv \<and> list_all (in_table ad) av
                 then Inr ([B, T, nat sd, nat sd], [B, T, nat ad], [B, T, 1])
                 else Inl IndexError)"
    using dt_init_Inr(1) [OF valid] c by simp
qed

theorem forward_shapes_witness:
  "DecisionTransformer_init 84 4 1 16 30 2 (1 / 10) 1000
     = Inr \<lparr> state_dim = 84, act_dim = 4, dt_h_dim = 16, context_len = 30,
             max_timestep = 1000,
             transformer_h = [\<lparr> attn = \<lparr> n_heads = 2, h_dim = 16, max_T = 90 \<rparr> \<rparr>] \<rparr> \<and>
   forward_shape
     \<lparr> state_dim = 84, act_dim = 4, dt_h_dim = 16, context_len = 30, max_timestep = 1000,
       transformer_h = [\<lparr> attn = \<lparr> n_heads = 2, h_dim = 16, max_T = 90 \<rparr> \<rparr>] \<rparr>
     \<lparr> dims = [2, 30], entries = map int [0..<30] @ map int [100..<130] \<rparr>
     [2, 30, 84, 84]
     \<lparr> dims = [2, 30], entries = replicate 60 3 \<rparr>
     [2, 30]
     = Inr ([2, 30, 84, 84], [2, 30, 4], [2, 30, 1]) \<and>
   forward_shape
     \<lparr> state_dim = 84, act_dim = 4, dt_h_dim = 16, context_len = 30, max_timestep = 1000,
       transformer_h = [\<lparr> attn = \<lparr> n_heads = 2, h_dim = 16, max_T = 90 \<rparr> \<rparr>] \<rparr>
     \<lparr> dims = [2, 30], entries = map int [0..<30] @ map int [100..<130] \<rparr>
     [2, 30, 84, 84]
     \<lparr> dims = [2, 30], entries = replicate 59 3 @ [4] \<rparr>
     [2, 30]
     = Inl IndexError"
proof -
  let ?m = "\<lparr> state_dim = 84, act_dim = 4, dt_h_dim = 16, context_len = 30,
             max_timestep = 1000,
             transformer_h = [\<lparr> attn = \<lparr> n_heads = 2, h_dim = 16, max_T = 90 \<rparr> \<rparr>] \<rparr>"
  let ?ts = "map int [0..<30] @ map int [100..<130]"
  have init: "DecisionTransformer_init 84 4 1 16 30 2 (1 / 10) 1000 = Inr ?m"
    using dt_init_ok [of 16 30 4 1000 "1 / 10" 1 2 84] by simp
  have ts: "list_all (in_table 1000) ?ts" "length ?ts = 60"
    by (auto simp: list_all_iff in_table_def)
  have good: "list_all (in_table 4) (replicate 60 3)"
    by (simp add: list_all_iff in_table_def)
  have bad: "\<not> list_all (in_table 4) (replicate 59 3 @ [4])"
    by (simp add: in_table_def)
  have run: "forward_shape ?m \<lparr> dims = [2, 30], entries = ?ts \<rparr> [2, 30, 84, 84]
        \<lparr> dims = [2, 30], entries = replicate 60 3 \<rparr> [2, 30]
      = Inr ([2, nat 30, nat 84, nat 84], [2, nat 30, nat 4], [2, nat 30, 1])"
    using forward_shapes [OF init, THEN conjunct2, of 2 30 ?ts "replicate 60 3"] ts good
    by simp
  have raise: "forward_shape ?m \<lparr> dims = [2, 30], entries = ?ts \<rparr> [2, 30, 84, 84]
        \<lparr> dims = [2, 30], entries = replicate 59 3 @ [4] \<rparr> [2, 30]
      = Inl IndexError"
    using forward_shapes [OF init, THEN conjunct2, of 2 30 ?ts "replicate 59 3 @ [4]"] ts bad
    by simp
  have "list_all (in_table 4) (replicate 60 3)"
    using forward_shapes [OF init, THEN conjunct1,
        of "\<lparr> dims = [2, 30], entries = ?ts \<rparr>" "[2, 30, 84, 84]"
           "\<lparr> dims = [2, 30], entries = replicate 60 3 \<rparr>" "[2, 30]"] run
    by simp
  with init run raise show ?thesis by simp
qed

text \<open>
  The claim as stated fails for a window length other than \<open>context_len\<close>: the model of
  the end-to-end scenario, with \<open>context_len = 30\<close>, raises on windows of 29 steps, in
  the first convolution of \<open>embed_state\<close>, which expects \<open>context_len\<close> channels.
\<close>

theorem shorter_window_raises:
  "DecisionTransformer_init 84 4 1 16 30 2 (1 / 10) 1000
     = Inr \<lparr> state_dim = 84, act_dim = 4, dt_h_dim = 16, context_len = 30,
             max_timestep = 1000,
             transformer_h = [\<lparr> attn = \<lparr> n_heads = 2, h_dim = 16, max_T = 90 \<rparr> \<rparr>] \<rparr> \<and>
   forward_shape
     \<lparr> state_dim = 84, act_dim = 4, dt_h_dim = 16, context_len = 30, max_timestep = 1000,
       transformer_h = [\<lparr> attn = \<lparr> n_heads = 2, h_dim = 16, max_T = 90 \<rparr> \<rparr>] \<rparr>
     \<lparr> dims = [2, 29], entries = map int [0..<29] @ map int [0..<29] \<rparr>
     [2, 29, 84, 84]
     \<lparr> dims = [2, 29], entries = replicate 58 0 \<rparr>
     [2, 29]
     = Inl RuntimeError"
proof -
  have "DecisionTransformer_init 84 4 1 16 30 2 (1 / 10) 1000
     = Inr \<lparr> state_dim = 84, act_dim = 4, dt_h_dim = 16, context_len = 30,
             max_timestep = 1000,
             transformer_h = [\<lparr> attn = \<lparr> n_heads = 2, h_dim = 16, max_T = 90 \<rparr> \<rparr>] \<rparr>"
    using dt_init_ok [of 16 30 4 1000 "1 / 10" 1 2 84] by simp
  moreover have "list_all (in_table 1000) (map int [0..<29] @ map int [0..<29])"
    by (auto simp: list_all_iff in_table_def)
  then have "forward_shape
     \<lparr> state_dim = 84, act_dim = 4, dt_h_dim = 16, context_len = 30, max_timestep = 1000,
       transformer_h = [\<lparr> attn = \<lparr> n_heads = 2, h_dim = 16, max_T = 90 \<rparr> \<rparr>] \<rparr>
     \<lparr> dims = [2, 29], entries = map int [0..<29] @ map int [0..<29] \<rparr>
     [2, 29, 84, 84]
     \<lparr> dims = [2, 29], entries = replicate 58 0 \<rparr>
     [2, 29]
     = Inl RuntimeError"
    by (simp add: forward_shape_def Embedding_shape_def reshape_nonneg embed_state_shape_def
        Conv2d_shape_def)
  ultimately show ?thesis by simp
qed

section \<open>The forward pass on values\<close>

lemma input_sequence_append:
  "input_sequence r s a = r @ s @ a"
  by (simp add: input_sequence_def reshape_3T_def stack_dim1_def)

lemma input_sequence_blocks:
  assumes "length r = T" "length s = T" "length a = T" "t < T"
  shows "input_sequence r s a ! t = r ! t"
    and "input_sequence r s a ! (T + t) = s ! t"
    and "input_sequence r s a ! (2 * T + t) = a ! t"
  using assms by (simp_all add: input_sequence_append nth_append)

text \<open>
  Claim C1 (interleaved token order), evaluated where the code departs from it. For a
  window of two steps \<open>stack\<close> along dimension 1 followed by the reshape, with no
  \<open>permute\<close> between them, gives \<open>(r0, r1, s0, s1, a0, a1)\<close>: position
  \<open>3 * 0 + 1\<close> holds the return-to-go of step 1 and not the state of step 0. The comment
  above the statement announces \<open>(r1, s1, a1, r2, s2, a2 ...)\<close>. In general the token of
  lane \<open>k\<close> and step \<open>t\<close> stands at position \<open>k * T + t\<close> (\<open>input_sequence_blocks\<close>).
\<close>

theorem input_sequence_two_steps:
  "input_sequence [[1], [2]] [[3], [4]] [[5], [6]] = [[1], [2], [3], [4], [5], [6]] \<and>
   input_sequence [[1], [2]] [[3], [4]] [[5], [6]] ! (3 * 0 + 1) = [2] \<and>
   input_sequence [[1], [2]] [[3], [4]] [[5], [6]] ! (3 * 0 + 1) \<noteq> [3]"
  by (simp add: input_sequence_append)

subsection \<open>Causality of the attention\<close>

lemma take_map_upt: "T \<le> M \<Longrightarrow> take T (map f [0..<M]) = map f [0..<T]"
  by (simp add: take_map take_upt)

lemma tril_ones_slice:
  assumes "T \<le> M"
  shows "map (take T) (take T (tril_ones M)) = tril_ones T"
  unfolding tril_ones_def take_map_upt [OF assms] map_map comp_def
  by (simp add: take_map_upt [OF assms])

lemma masked_row:
  assumes "length r = T" and "i < T"
  shows "map2 (\<lambda>s m. if m then Some s else None) r (map (\<lambda>l. l \<le> i) [0..<T])
         = map Some (take (Suc i) r) @ replicate (T - Suc i) None"
proof (rule nth_equalityI)
  show "length (map2 (\<lambda>s m. if m then Some s else None) r (map (\<lambda>l. l \<le> i) [0..<T]))
        = length (map Some (take (Suc i) r) @ replicate (T - Suc i) None)"
    using assms by simp
next
  fix l
  assume "l < length (map2 (\<lambda>s m. if m then Some s else None) r (map (\<lambda>l. l \<le> i) [0..<T]))"
  then have l: "l < T" using assms by simp
  then show "map2 (\<lambda>s m. if m then Some s else None) r (map (\<lambda>l. l \<le> i) [0..<T]) ! l
             = (map Some (take (Suc i) r) @ replicate (T - Suc i) None) ! l"
    using assms by (auto simp: nth_append)
qed

lemma softmax_masked_tail:
  "softmax (row @ replicate n None) = softmax row @ replicate n 0"
  by (simp add: softmax_def Let_def sum_list_replicate)

lemma weighted_sum_zero_tail:
  fixes f :: "'b \<Rightarrow> real"
  shows "sum_list (map2 (\<lambda>wl v. wl * f v) (w @ replicate n 0) vs)
   = sum_list (map2 (\<lambda>wl v. wl * f v) w (take (length w) vs))"
proof -
  have "zip (w @ replicate n 0) vs
        = zip w (take (length w) vs) @ zip (replicate n 0) (drop (length w) vs)"
    by (simp add: zip_append1)
  moreover have "sum_list (map (\<lambda>(wl, v). wl * f v) (zip (replicate n (0::real)) us)) = 0" for us :: "'b list"
    by (induction n arbitrary: us) (auto simp: zip_Cons1 split: list.splits)
  ultimately show ?thesis by simp
qed

lemma masked_fill_nth:
  assumes "i < length att" and "i < length ms"
  shows "masked_fill att ms ! i = map2 (\<lambda>s m. if m then Some s else None) (att ! i) (ms ! i)"
  using assms by (simp add: masked_fill_def)

lemma tril_ones_nth: "i < T \<Longrightarrow> tril_ones T ! i = map (\<lambda>l. l \<le> i) [0..<T]"
  by (simp add: tril_ones_def)

lemma length_tril_ones [simp]: "length (tril_ones n) = n"
  by (simp add: tril_ones_def)

lemma attention_head_length:
  assumes "length q \<le> w_max_T a"
  shows "length (attention_head a q k v j) = length q"
  using assms
  by (simp add: attention_head_def Let_def att_matmul_def masked_fill_def tril_ones_def)

lemma attention_head_nth:
  assumes q: "length q = T" and k: "length k = T" and M: "T \<le> w_max_T a" and i: "i < T"
  shows "attention_head a q k v j ! i
         = causal_row (w_h_dim a div w_n_heads a) j (q ! i) (take (Suc i) k) (take (Suc i) v)"
proof -
  let ?D = "w_h_dim a div w_n_heads a"
  let ?score = "\<lambda>qi kl. dot (head ?D j qi) (head ?D j kl) / sqrt (real ?D)"
  let ?att = "map (\<lambda>qi. map (?score qi) k) q"
  let ?masked = "masked_fill ?att (map (take T) (take T (tril_ones (w_max_T a))))"
  have slice: "map (take T) (take T (tril_ones (w_max_T a))) = tril_ones T"
    by (rule tril_ones_slice [OF M])
  have len: "length ?masked = T"
    using q M by (simp add: masked_fill_def tril_ones_def)
  have row: "?masked ! i
      = map Some (map (?score (q ! i)) (take (Suc i) k)) @ replicate (T - Suc i) None"
  proof -
    have "?masked ! i
        = map2 (\<lambda>s m. if m then Some s else None) (map (?score (q ! i)) k)
            (map (\<lambda>l. l \<le> i) [0..<T])"
      unfolding slice using q i by (simp add: masked_fill_nth tril_ones_nth)
    also have "\<dots> = map Some (take (Suc i) (map (?score (q ! i)) k))
        @ replicate (T - Suc i) None"
      using k i by (intro masked_row) simp_all
    finally show ?thesis by (simp add: take_map)
  qed
  let ?w = "softmax (map Some (map (?score (q ! i)) (take (Suc i) k)))"
  have wlen: "length ?w = Suc i"
    using k i by (simp add: softmax_def Let_def)
  have soft: "softmax (?masked ! i) = ?w @ replicate (T - Suc i) 0"
    by (simp only: row softmax_masked_tail)
  have "attention_head a q k v j ! i
      = map (\<lambda>d. sum_list (map2 (\<lambda>wl u. wl * (u ! d)) (softmax (?masked ! i))
            (map (head ?D j) v))) [0..<?D]"
    using len i q by (simp add: attention_head_def Let_def att_matmul_def)
  also have "\<dots> = map (\<lambda>d. sum_list (map2 (\<lambda>wl u. wl * (u ! d)) ?w
            (take (Suc i) (map (head ?D j) v)))) [0..<?D]"
    by (simp only: soft weighted_sum_zero_tail wlen)
  also have "\<dots> = map (\<lambda>d. sum_list (map2 (\<lambda>wl u. wl * (head ?D j u ! d)) ?w
            (take (Suc i) v))) [0..<?D]"
    by (simp add: take_map zip_map2 split_def comp_def)
  finally show ?thesis
    by (simp add: causal_row_def Let_def comp_def)
qed

lemma attention_forward_length [simp]:
  "length (attention_forward a x) = length x"
  by (simp add: attention_forward_def Let_def)

lemma attention_forward_nth:
  assumes "length x \<le> w_max_T a" and "i < length x"
  shows "attention_forward a x ! i
         = Linear (c_proj a) (concat (map (\<lambda>j.
             causal_row (w_h_dim a div w_n_heads a) j
               (take (w_h_dim a) (Linear (c_attn a) (x ! i)))
               (map (\<lambda>u. take (w_h_dim a) (drop (w_h_dim a) (Linear (c_attn a) u)))
                  (take (Suc i) x))
               (map (\<lambda>u. take (w_h_dim a) (drop (2 * w_h_dim a) (Linear (c_attn a) u)))
                  (take (Suc i) x)))
             [0..<w_n_heads a]))"
proof -
  let ?qkv = "map (Linear (c_attn a)) x"
  let ?q = "map (take (w_h_dim a)) ?qkv"
  let ?k = "map (\<lambda>u. take (w_h_dim a) (drop (w_h_dim a) u)) ?qkv"
  let ?v = "map (\<lambda>u. take (w_h_dim a) (drop (2 * w_h_dim a) u)) ?qkv"
  have "attention_head a ?q ?k ?v j ! i
        = causal_row (w_h_dim a div w_n_heads a) j (?q ! i) (take (Suc i) ?k) (take (Suc i) ?v)"
    for j
    using assms by (intro attention_head_nth [where T = "length x"]) simp_all
  then show ?thesis
    using assms(2) by (simp add: attention_forward_def Let_def take_map comp_def)
qed

lemma attention_forward_take:
  assumes "length x \<le> w_max_T a"
  shows "take n (attention_forward a x) = attention_forward a (take n x)"
proof (rule nth_equalityI)
  show "length (take n (attention_forward a x)) = length (attention_forward a (take n x))"
    by simp
next
  fix i
  assume "i < length (take n (attention_forward a x))"
  then have i: "i < n" "i < length x" by simp_all
  then have tk: "take (Suc i) (take n x) = take (Suc i) x"
    by (simp add: min_def)
  have "attention_forward a (take n x) ! i = attention_forward a x ! i"
    using assms i by (simp add: attention_forward_nth tk)
  then show "take n (attention_forward a x) ! i = attention_forward a (take n x) ! i"
    using i by simp
qed

lemma block_forward_length [simp]: "length (block_forward b x) = length x"
  by (simp add: block_forward_def Let_def)

lemma block_forward_take:
  assumes "length x \<le> w_max_T (w_attn b)"
  shows "take n (block_forward b x) = block_forward b (take n x)"
  using assms
  by (simp add: block_forward_def Let_def take_zip take_map attention_forward_take)

lemma fold_block_forward_length [simp]:
  "length (fold block_forward bs x) = length x"
  by (induction bs arbitrary: x) simp_all

lemma fold_block_forward_take:
  assumes "\<forall>b \<in> set bs. length x \<le> w_max_T (w_attn b)"
  shows "take n (fold block_forward bs x) = fold block_forward bs (take n x)"
  using assms
proof (induction bs arbitrary: x)
  case Nil
  show ?case by simp
next
  case (Cons b bs)
  have "take n (fold block_forward bs (block_forward b x))
        = fold block_forward bs (take n (block_forward b x))"
    using Cons.prems by (intro Cons.IH) simp
  then show ?case using Cons.prems by (simp add: block_forward_take)
qed

lemma hidden_length [simp]: "length (hidden P x) = length x"
  by (simp add: hidden_def)

lemma hidden_take:
  assumes "\<forall>b \<in> set (transformer_blocks P). length x \<le> w_max_T (w_attn b)"
  shows "take n (hidden P x) = hidden P (take n x)"
  using assms by (simp add: hidden_def take_map fold_block_forward_take)

lemma hidden_nth_prefix:
  assumes "\<forall>b \<in> set (transformer_blocks P). length x \<le> w_max_T (w_attn b)"
    and "\<forall>b \<in> set (transformer_blocks P). length y \<le> w_max_T (w_attn b)"
    and "take (Suc p) x = take (Suc p) y" and "p < length x" and "p < length y"
  shows "hidden P x ! p = hidden P y ! p"
proof -
  have "hidden P x ! p = take (Suc p) (hidden P x) ! p" by simp
  also have "\<dots> = hidden P (take (Suc p) y) ! p"
    using assms(1,3) by (simp add: hidden_take)
  also have "\<dots> = take (Suc p) (hidden P y) ! p"
    using assms(2) by (simp add: hidden_take)
  finally show ?thesis by simp
qed

lemma sequence_err_eq_Inr: "sequence_err ms = Inr ys \<longleftrightarrow> ms = map Inr ys"
proof (induction ms arbitrary: ys)
  case Nil
  show ?case by auto
next
  case (Cons m ms)
  show ?case
    by (cases m; cases ys) (auto simp: Cons bind_err_eq_Inr)
qed

lemma embed_all_Inr:
  assumes "embed_all table idx = Inr vs"
  shows "vs = map (\<lambda>i. map tanh (table ! nat i)) idx"
proof -
  from assms have eq: "map (\<lambda>i. map_sum id (map tanh) (Embedding table i)) idx = map Inr vs"
    by (simp add: embed_all_def sequence_err_eq_Inr)
  then have len: "length vs = length idx"
    by (metis length_map)
  show ?thesis
  proof (rule nth_equalityI)
    show "length vs = length (map (\<lambda>i. map tanh (table ! nat i)) idx)"
      using len by simp
  next
    fix n
    assume n: "n < length vs"
    from eq have "map (\<lambda>i. map_sum id (map tanh) (Embedding table i)) idx ! n = map Inr vs ! n"
      by simp
    then have "map_sum id (map tanh) (Embedding table (idx ! n)) = Inr (vs ! n)"
      using n len by simp
    then show "vs ! n = map (\<lambda>i. map tanh (table ! nat i)) idx ! n"
      using n len by (auto simp: Embedding_def split: if_splits)
  qed
qed

lemma lanes_nth:
  "k < 3 \<Longrightarrow> t < T \<Longrightarrow> lanes T hs ! k ! t = hs ! (3 * t + k)"
  by (simp add: lanes_def)

lemma lanes_action:
  "lanes T hs ! Suc 0 = map (\<lambda>t. hs ! Suc (3 * t)) [0..<T]"
  by (simp add: lanes_def)

lemma rows_length [simp]: "length (rows T h v) = T"
  by (simp add: rows_def)

lemma forward_Inr:
  assumes "forward P w = Inr out"
  shows "action_preds out
         = map (Linear (predict_action P))
             (lanes (length (in_timesteps w)) (hidden P (assembled P w)) ! 1)"
proof -
  from assms obtain te ae where
    te: "embed_all (embed_timestep P) (in_timesteps w) = Inr te"
    and ae: "embed_all (embed_action P) (in_actions w) = Inr ae"
    and out: "action_preds out = map (Linear (predict_action P))
      (lanes (length (in_timesteps w)) (hidden P (input_sequence
      (map2 vadd (rows (length (in_timesteps w)) (t_h_dim P)
         (map tanh (Linear (embed_rtg P) (in_returns_to_go w)))) te)
      (map2 vadd (rows (length (in_timesteps w)) (t_h_dim P)
         (map tanh (Linear (embed_state_linear P) (embed_state_conv P (in_states w))))) te)
      (map2 vadd ae te))) ! 1)"
    unfolding forward_def Let_def bind_err_eq_Inr by auto
  show ?thesis
    unfolding out assembled_def Let_def
    using embed_all_Inr [OF te] embed_all_Inr [OF ae] by simp
qed

lemma assembled_split:
  "\<exists>re se. length re = length (in_timesteps w) \<and> length se = length (in_timesteps w) \<and>
     assembled P w = re @ se @
       map2 vadd (map (\<lambda>i. map tanh (embed_action P ! nat i)) (in_actions w))
         (map (\<lambda>i. map tanh (embed_timestep P ! nat i)) (in_timesteps w)) \<and>
     (\<forall>w'. in_timesteps w' = in_timesteps w \<and> in_states w' = in_states w \<and>
           in_returns_to_go w' = in_returns_to_go w \<longrightarrow>
        assembled P w' = re @ se @
          map2 vadd (map (\<lambda>i. map tanh (embed_action P ! nat i)) (in_actions w'))
            (map (\<lambda>i. map tanh (embed_timestep P ! nat i)) (in_timesteps w)))"
  by (intro exI [of _ "map2 vadd (rows (length (in_timesteps w)) (t_h_dim P)
              (map tanh (Linear (embed_rtg P) (in_returns_to_go w))))
              (map (\<lambda>i. map tanh (embed_timestep P ! nat i)) (in_timesteps w))"]
        exI [of _ "map2 vadd (rows (length (in_timesteps w)) (t_h_dim P)
              (map tanh (Linear (embed_state_linear P) (embed_state_conv P (in_states w)))))
              (map (\<lambda>i. map tanh (embed_timestep P ! nat i)) (in_timesteps w))"])
     (simp add: assembled_def Let_def input_sequence_append)

lemma take_three_blocks:
  assumes "length re = T" and "length se = T" and "take m a = take m b" and "n - (T + T) \<le> m"
  shows "take n (re @ se @ a) = take n (re @ se @ b)"
proof -
  have "take (n - (T + T)) (take m a) = take (n - (T + T)) (take m b)"
    using assms(3) by simp
  then have "take (n - (T + T)) a = take (n - (T + T)) b"
    using assms(4) by (simp add: min_def)
  then show ?thesis using assms(1,2) by simp
qed

lemma forward_action_independent:
  assumes run1: "forward P w1 = Inr out1" and run2: "forward P w2 = Inr out2"
    and same: "in_timesteps w2 = in_timesteps w1" "in_states w2 = in_states w1"
      "in_returns_to_go w2 = in_returns_to_go w1"
    and len: "length (in_actions w1) = length (in_timesteps w1)"
      "length (in_actions w2) = length (in_timesteps w1)"
    and before: "take t (in_actions w1) = take t (in_actions w2)"
    and t: "t < length (in_timesteps w1)"
    and mask: "\<forall>b \<in> set (transformer_blocks P).
        3 * length (in_timesteps w1) \<le> w_max_T (w_attn b)"
  shows "action_preds out1 ! t = action_preds out2 ! t"
proof -
  let ?T = "length (in_timesteps w1)"
  let ?te = "map (\<lambda>i. map tanh (embed_timestep P ! nat i)) (in_timesteps w1)"
  let ?ae = "\<lambda>w. map2 vadd (map (\<lambda>i. map tanh (embed_action P ! nat i)) (in_actions w)) ?te"
  obtain re se where re: "length re = ?T" and se: "length se = ?T"
    and x1: "assembled P w1 = re @ se @ ?ae w1"
    and x2: "assembled P w2 = re @ se @ ?ae w2"
    using assembled_split [of w1 P] same by blast
  have l1: "length (assembled P w1) = 3 * ?T" and l2: "length (assembled P w2) = 3 * ?T"
    using re se len by (simp_all add: x1 x2)
  have "take t (?ae w1) = take t (?ae w2)"
    using before by (simp add: take_zip take_map)
  then have pre: "take (Suc (3 * t + 1)) (assembled P w1)
                  = take (Suc (3 * t + 1)) (assembled P w2)"
    unfolding x1 x2 using re se t by (intro take_three_blocks [where T = ?T and m = t]) simp_all
  have "hidden P (assembled P w1) ! (3 * t + 1) = hidden P (assembled P w2) ! (3 * t + 1)"
    using mask t pre by (intro hidden_nth_prefix) (simp_all add: l1 l2)
  then show ?thesis
    using t same(1)
    by (simp add: forward_Inr [OF run1] forward_Inr [OF run2] lanes_action)
qed



subsection \<open>The action prediction\<close>

lemma tiny_embed_actions:
  assumes "set acts \<subseteq> {0, 1}"
  shows "\<exists>vs. embed_all [[0, 0], [1, 1]] acts = Inr vs"
  using assms
proof (induction acts)
  case Nil
  show ?case by (simp add: embed_all_def)
next
  case (Cons a acts)
  then obtain vs where "embed_all [[0, 0], [1, 1]] acts = Inr vs" by auto
  moreover have "a = 0 \<or> a = 1" using Cons.prems by simp
  ultimately show ?case by (auto simp: embed_all_def Embedding_def)
qed

lemma tiny_forward_succeeds:
  assumes "set acts \<subseteq> {0, 1}"
  shows "\<exists>out. forward tiny_model (tiny_window acts frames) = Inr out"
proof -
  obtain vs where vs: "embed_all [[0, 0], [1, 1]] acts = Inr vs"
    using tiny_embed_actions [OF assms] by blast
  have te: "embed_all [[0, 0], [0, 0], [0, 0]] [0, 1, 2] = Inr [[0, 0], [0, 0], [0, 0]]"
    by (simp add: embed_all_def Embedding_def)
  show ?thesis
    by (simp add: forward_def Let_def tiny_window_def tiny_model_def te vs)
qed

lemma action_logits_Inr:
  "forward P w = Inr out \<Longrightarrow> action_logits P w t = Inr (action_preds out ! t)"
  by (simp add: action_logits_def)

lemma forward_batch_single:
  "forward P w = Inr out \<Longrightarrow> forward_batch P [w] = Inr [out]"
  by (simp add: forward_batch_def)

lemma unit_norm_pair:
  "LayerNorm unit_norm [a, b] = [unit_scale ((a - b) / 2), - unit_scale ((a - b) / 2)]"
proof -
  have m: "a - (a + b) / 2 = (a - b) / 2" "b - (a + b) / 2 = - ((a - b) / 2)"
    by (simp_all add: field_simps)
  have v: "(((a - b) / 2)\<^sup>2 + (- ((a - b) / 2))\<^sup>2) / 2 = ((a - b) / 2)\<^sup>2"
    by simp
  show ?thesis
    by (simp add: LayerNorm_def unit_norm_def Let_def m v unit_scale_def)
qed

lemma unit_scale_pos: "0 < x \<Longrightarrow> 0 < unit_scale x"
  by (simp add: unit_scale_def add_pos_nonneg)

lemma unit_scale_zero [simp]: "unit_scale 0 = 0"
  by (simp add: unit_scale_def)

lemma dot_zero_row: "dot (replicate m 0) v = 0"
proof -
  have "sum_list (map2 (*) (replicate m (0::real)) v) = 0"
    by (induction m arbitrary: v) (auto simp: zip_Cons1 split: list.splits)
  then show ?thesis by (simp add: dot_def)
qed

lemma dot_Cons: "dot (a # u) (b # v) = a * b + dot u v"
  by (simp add: dot_def)

lemma Linear_zero:
  "Linear \<lparr> weight = replicate n (replicate m 0), bias = replicate n 0 \<rparr> v = replicate n 0"
  by (simp add: Linear_def dot_zero_row zip_replicate map_replicate_const)

lemma vadd_zero_pair: "vadd [a, b] (replicate 2 0) = [a, b]"
  by (simp add: vadd_def numeral_2_eq_2)

lemma map2_vadd_zero_pairs:
  assumes "\<forall>u \<in> set x. \<exists>a b. u = [a, b]"
  shows "map2 vadd x (map (\<lambda>i. replicate 2 0) ns) = take (length ns) x"
  using assms
proof (induction x arbitrary: ns)
  case Nil
  show ?case by simp
next
  case (Cons u x)
  then obtain a b where u: "u = [a, b]" by auto
  show ?case
  proof (cases ns)
    case Nil
    then show ?thesis by simp
  next
    case (Cons n ns')
    then show ?thesis using Cons.IH [of ns'] Cons.prems u by (simp add: vadd_zero_pair)
  qed
qed

lemma tiny_block_identity:
  assumes "\<forall>u \<in> set x. \<exists>a b. u = [a, b]"
  shows "block_forward tiny_block x = x"
proof -
  have att: "attention_forward (w_attn tiny_block) y = map (\<lambda>i. replicate 2 0) [0..<length y]"
    for y
    by (simp add: attention_forward_def Let_def tiny_block_def Linear_zero)
  have mlp: "mlpf tiny_block u = replicate 2 0" for u
    by (simp add: mlpf_def tiny_block_def Linear_zero)
  have one: "map2 vadd x (attention_forward (w_attn tiny_block) (map (LayerNorm (ln_1 tiny_block)) x))
             = x"
    using map2_vadd_zero_pairs [OF assms, of "[0..<length x]"] by (simp add: att)
  have two: "map2 vadd x (map (\<lambda>u. mlpf tiny_block (LayerNorm (ln_2 tiny_block) u)) x) = x"
    using map2_vadd_zero_pairs [OF assms, of x] by (simp add: mlp)
  show ?thesis
    by (simp add: block_forward_def Let_def one two)
qed

lemma tiny_state_features:
  "Linear (embed_state_linear tiny_model) (embed_state_conv tiny_model [frame a, frame b, frame c])
   = [0, 0, c, 0, 0, 0]"
proof -
  have px: "frame c ! 0 ! 0 = c"
    by (simp add: frame_def)
  have z: "dot (replicate 3136 0) v = 0" for v
    by (rule dot_zero_row)
  have e: "dot (1 # replicate 3135 0) (c # replicate 3135 0) = c"
    by (simp only: dot_Cons dot_zero_row)
  show ?thesis
    by (simp add: tiny_model_def px Linear_def z e)
qed

lemma tiny_assembled:
  "assembled tiny_model (tiny_window [0, 0, 0] [frame a, frame b, frame c])
   = [[0, 0], [0, 0], [0, 0], [0, 0], [tanh c, 0], [0, 0], [0, 0], [0, 0], [0, 0]]"
proof -
  let ?w = "tiny_window [0, 0, 0] [frame a, frame b, frame c]"
  have rows3: "rows (Suc (Suc (Suc 0))) 2 [x0, x1, x2, x3, x4, x5] = [[x0, x1], [x2, x3], [x4, x5]]"
    for x0 x1 x2 x3 x4 x5 :: real
    by (simp add: rows_def numeral_2_eq_2 numeral_3_eq_3 upt_rec)
  have six: "replicate 6 (0::real) = [0, 0, 0, 0, 0, 0]"
    by (simp add: numeral_eq_Suc)
  have er: "embed_rtg tiny_model
            = \<lparr> weight = replicate 6 (replicate 3 0), bias = replicate 6 0 \<rparr>"
    by (simp add: tiny_model_def)
  have rtg: "Linear (embed_rtg tiny_model) (in_returns_to_go ?w) = [0, 0, 0, 0, 0, 0]"
    unfolding er Linear_zero by (rule six)
  have st: "Linear (embed_state_linear tiny_model) (embed_state_conv tiny_model (in_states ?w))
            = [0, 0, c, 0, 0, 0]"
    using tiny_state_features [of a b c] by (simp add: tiny_window_def)
  have rest: "in_timesteps ?w = [0, 1, 2]" "in_actions ?w = [0, 0, 0]" "t_h_dim tiny_model = 2"
    "embed_timestep tiny_model = [[0, 0], [0, 0], [0, 0]]"
    "embed_action tiny_model = [[0, 0], [1, 1]]"
    by (simp_all add: tiny_window_def tiny_model_def)
  show ?thesis
    unfolding assembled_def Let_def rtg st rest
    by (simp add: rows3 input_sequence_append vadd_def)
qed

lemma tiny_hidden:
  "hidden tiny_model (assembled tiny_model (tiny_window [0, 0, 0] [frame a, frame b, frame c])) ! 4
   = [unit_scale (unit_scale (tanh c / 2)), - unit_scale (unit_scale (tanh c / 2))]"
proof -
  let ?x = "[[0, 0], [0, 0], [0, 0], [0, 0], [tanh c, 0], [0, 0], [0, 0], [0, 0], [0, 0]]"
  let ?n = "map (LayerNorm unit_norm) ?x"
  have pairs: "\<forall>u \<in> set ?n. \<exists>a b. u = [a, b]"
    by (simp add: unit_norm_pair)
  have "hidden tiny_model ?x = map (LayerNorm unit_norm) (block_forward tiny_block ?n)"
    by (simp add: hidden_def tiny_model_def)
  also have "\<dots> = map (LayerNorm unit_norm) ?n"
    by (simp only: tiny_block_identity [OF pairs])
  finally show ?thesis
    by (simp add: tiny_assembled unit_norm_pair)
qed

lemma tiny_logits:
  "action_logits tiny_model (tiny_window [0, 0, 0] [frame a, frame b, frame c]) 1
   = Inr [unit_scale (unit_scale (tanh c / 2)), - unit_scale (unit_scale (tanh c / 2))]"
proof -
  let ?w = "tiny_window [0, 0, 0] [frame a, frame b, frame c]"
  let ?y = "unit_scale (unit_scale (tanh c / 2))"
  obtain out where run: "forward tiny_model ?w = Inr out"
    using tiny_forward_succeeds [of "[0, 0, 0]"] by auto
  have pa: "predict_action tiny_model = \<lparr> weight = [[1, 0], [0, 1]], bias = [0, 0] \<rparr>"
    by (simp add: tiny_model_def)
  have lin: "Linear \<lparr> weight = [[1, 0], [0, 1]], bias = [0, 0] \<rparr> [y, z] = [y, z]" for y z
    by (simp add: Linear_def dot_def)
  have T: "length (in_timesteps ?w) = 3"
    by (simp add: tiny_window_def)
  have "action_preds out ! 1
        = Linear (predict_action tiny_model) (hidden tiny_model (assembled tiny_model ?w) ! 4)"
    by (simp add: forward_Inr [OF run] T lanes_action)
  also have "\<dots> = [?y, - ?y]"
    by (simp only: tiny_hidden pa lin)
  finally show ?thesis
    by (simp add: action_logits_Inr [OF run])
qed

text \<open>
  Claim C2, as the code has it. Two inputs (dropout disabled) on which the forward pass
  returns, and that for the window \<open>b\<close> of the batch have the same timesteps, the same
  states and the same returns-to-go, and the same actions at the steps before \<open>t\<close>, give
  the same action logits at step \<open>t\<close> of that window, whatever their actions at step
  \<open>t\<close> and later: the action prediction does not read the action it predicts. The
  windows have one action for each step and are no longer than the mask of the blocks,
  as the shapes of the forward pass demand.
\<close>

theorem action_prediction_noninterference:
  assumes run1: "forward_batch P batch1 = Inr outs1"
    and run2: "forward_batch P batch2 = Inr outs2"
    and b: "b < length batch1" "b < length batch2"
    and same: "in_timesteps (batch2 ! b) = in_timesteps (batch1 ! b)"
      "in_states (batch2 ! b) = in_states (batch1 ! b)"
      "in_returns_to_go (batch2 ! b) = in_returns_to_go (batch1 ! b)"
    and len: "length (in_actions (batch1 ! b)) = length (in_timesteps (batch1 ! b))"
      "length (in_actions (batch2 ! b)) = length (in_timesteps (batch1 ! b))"
    and before: "take t (in_actions (batch1 ! b)) = take t (in_actions (batch2 ! b))"
    and t: "t < length (in_timesteps (batch1 ! b))"
    and mask: "\<forall>blk \<in> set (transformer_blocks P).
        3 * length (in_timesteps (batch1 ! b)) \<le> w_max_T (w_attn blk)"
  shows "action_preds (outs1 ! b) ! t = action_preds (outs2 ! b) ! t"
proof -
  from run1 have "map (forward P) batch1 = map Inr outs1"
    by (simp add: forward_batch_def sequence_err_eq_Inr)
  then have "map (forward P) batch1 ! b = map Inr outs1 ! b" "length outs1 = length batch1"
    by (simp, metis length_map)
  then have r1: "forward P (batch1 ! b) = Inr (outs1 ! b)"
    using b(1) by simp
  from run2 have "map (forward P) batch2 = map Inr outs2"
    by (simp add: forward_batch_def sequence_err_eq_Inr)
  then have "map (forward P) batch2 ! b = map Inr outs2 ! b" "length outs2 = length batch2"
    by (simp, metis length_map)
  then have r2: "forward P (batch2 ! b) = Inr (outs2 ! b)"
    using b(2) by simp
  show ?thesis
    by (rule forward_action_independent [OF r1 r2 same len before t mask])
qed


theorem action_prediction_noninterference_witness:
  "action_logits tiny_model (tiny_window [0, 0, 0] [frame 0, frame 0, frame 0]) 1
     = action_logits tiny_model (tiny_window [0, 1, 1] [frame 0, frame 0, frame 0]) 1 \<and>
   \<not> isl (action_logits tiny_model (tiny_window [0, 0, 0] [frame 0, frame 0, frame 0]) 1) \<and>
   in_actions (tiny_window [0, 0, 0] [frame 0, frame 0, frame 0])
     \<noteq> in_actions (tiny_window [0, 1, 1] [frame 0, frame 0, frame 0])"
proof -
  let ?w1 = "tiny_window [0, 0, 0] [frame 0, frame 0, frame 0]"
  let ?w2 = "tiny_window [0, 1, 1] [frame 0, frame 0, frame 0]"
  obtain out1 where r1: "forward tiny_model ?w1 = Inr out1"
    using tiny_forward_succeeds [of "[0, 0, 0]"] by auto
  obtain out2 where r2: "forward tiny_model ?w2 = Inr out2"
    using tiny_forward_succeeds [of "[0, 1, 1]"] by auto
  have "action_preds ([out1] ! 0) ! 1 = action_preds ([out2] ! 0) ! 1"
    by (rule action_prediction_noninterference
        [OF forward_batch_single [OF r1] forward_batch_single [OF r2]])
      (simp_all add: tiny_window_def tiny_model_def tiny_block_def)
  then have "action_logits tiny_model ?w1 1 = action_logits tiny_model ?w2 1"
    by (simp add: action_logits_Inr [OF r1] action_logits_Inr [OF r2])
  moreover have "\<not> isl (action_logits tiny_model ?w1 1)"
    by (simp add: action_logits_Inr [OF r1])
  moreover have "in_actions ?w1 \<noteq> in_actions ?w2"
    by (simp add: tiny_window_def)
  ultimately show ?thesis by blast
qed

text \<open>
  The claim as stated fails for the states: two windows of three steps with the same
  timesteps, returns-to-go and actions and the same frames at steps 0 and 1, which differ
  in the frame of step 2, get different action logits at step 1. The state embedding of
  step 1 is computed from the frames of the whole window.
\<close>

theorem later_state_changes_action_logits:
  "in_timesteps (tiny_window [0, 0, 0] [frame 0, frame 0, frame 1])
     = in_timesteps (tiny_window [0, 0, 0] [frame 0, frame 0, frame 0]) \<and>
   in_returns_to_go (tiny_window [0, 0, 0] [frame 0, frame 0, frame 1])
     = in_returns_to_go (tiny_window [0, 0, 0] [frame 0, frame 0, frame 0]) \<and>
   in_actions (tiny_window [0, 0, 0] [frame 0, frame 0, frame 1])
     = in_actions (tiny_window [0, 0, 0] [frame 0, frame 0, frame 0]) \<and>
   take 2 (in_states (tiny_window [0, 0, 0] [frame 0, frame 0, frame 1]))
     = take 2 (in_states (tiny_window [0, 0, 0] [frame 0, frame 0, frame 0])) \<and>
   action_logits tiny_model (tiny_window [0, 0, 0] [frame 0, frame 0, frame 0]) 1
     = Inr [0, 0] \<and>
   \<not> isl (action_logits tiny_model (tiny_window [0, 0, 0] [frame 0, frame 0, frame 1]) 1) \<and>
   action_logits tiny_model (tiny_window [0, 0, 0] [frame 0, frame 0, frame 1]) 1
     \<noteq> action_logits tiny_model (tiny_window [0, 0, 0] [frame 0, frame 0, frame 0]) 1"
proof -
  have pos: "0 < unit_scale (unit_scale (tanh 1 / 2))"
    by (intro unit_scale_pos) simp
  have "action_logits tiny_model (tiny_window [0, 0, 0] [frame 0, frame 0, frame 0]) 1
     = Inr [0, 0] \<and>
   \<not> isl (action_logits tiny_model (tiny_window [0, 0, 0] [frame 0, frame 0, frame 1]) 1) \<and>
   action_logits tiny_model (tiny_window [0, 0, 0] [frame 0, frame 0, frame 1]) 1
     \<noteq> action_logits tiny_model (tiny_window [0, 0, 0] [frame 0, frame 0, frame 0]) 1"
    using pos tiny_logits [of 0 0 0] tiny_logits [of 0 0 1] by simp
  moreover have
    "in_timesteps (tiny_window [0, 0, 0] [frame 0, frame 0, frame 1])
       = in_timesteps (tiny_window [0, 0, 0] [frame 0, frame 0, frame 0]) \<and>
     in_returns_to_go (tiny_window [0, 0, 0] [frame 0, frame 0, frame 1])
       = in_returns_to_go (tiny_window [0, 0, 0] [frame 0, frame 0, frame 0]) \<and>
     in_actions (tiny_window [0, 0, 0] [frame 0, frame 0, frame 1])
       = in_actions (tiny_window [0, 0, 0] [frame 0, frame 0, frame 0]) \<and>
     take 2 (in_states (tiny_window [0, 0, 0] [frame 0, frame 0, frame 1]))
       = take 2 (in_states (tiny_window [0, 0, 0] [frame 0, frame 0, frame 0]))"
    by (simp add: tiny_window_def)
  ultimately show ?thesis by blast
qed


end
